theory Spec2Isabelle
  imports Main "HOL-Library.List_Lexorder" "HOL-Library.Char_ord" "HOL-Library.Sublist"
    "HOL-Library.AList"
begin

section \<open>Data model\<close>

text \<open>
  The package \<open>internal/issue\<close> is not part of the sources at hand; the record below
  lists the fields of \<open>issue.Issue\<close> that the functions of \<open>internal/app\<close> read and
  write. \<open>IssueNumber\<close> and \<open>IssueRef\<close> are string types in the source (the code
  converts strings to them directly), a nil pointer is \<open>None\<close>, and a time stamp is a
  natural number.
\<close>

record Issue =
  Number :: string
  Title :: string
  Body :: string
  Labels :: "string list"
  Assignees :: "string list"
  Projects :: "string list"
  Milestone :: string
  IssueType :: string
  State :: string
  StateReason :: "string option"
  Parent :: "string option"
  BlockedBy :: "string list"
  Blocks :: "string list"
  SyncedAt :: "nat option"

text \<open>\<open>ghcli.IssueChange\<close>, as \<open>diffIssue\<close> fills it and \<open>hasEdits\<close> reads it.\<close>

record IssueChange =
  chTitle :: "string option"
  chBody :: "string option"
  chMilestone :: "string option"
  chIssueType :: "string option"
  AddLabels :: "string list"
  RemoveLabels :: "string list"
  AddAssignees :: "string list"
  RemoveAssignees :: "string list"
  AddProjects :: "string list"
  RemoveProjects :: "string list"
  StateTransition :: "string option"
  chStateReason :: "string option"

section \<open>helpers.go: set difference and change sets\<close>

text \<open>
  \<open>diffStringSet\<close> builds two Go maps used as sets and ranges over their keys. The
  order of a Go map range is not fixed; \<open>map_keys\<close> is one enumeration of the key set
  (each key once), and \<open>diffStringSet_enum\<close> below shows that the result does not
  depend on the enumeration, because both results are sorted at the end.
  \<open>sort.Strings\<close> orders strings bytewise, which is the lexicographic order on
  \<open>char list\<close>.
\<close>

definition map_keys :: "string list \<Rightarrow> string list" where
  "map_keys items = remdups items"

definition diffStringSet :: "string list \<Rightarrow> string list \<Rightarrow> string list \<times> string list" where
  "diffStringSet old new =
     (let add = filter (\<lambda>item. item \<notin> set old) (map_keys new);
          remove = filter (\<lambda>item. item \<notin> set new) (map_keys old)
      in (sort add, sort remove))"

definition normalizeOptional :: "string option \<Rightarrow> string" where
  "normalizeOptional v = (case v of None \<Rightarrow> [] | Some s \<Rightarrow> s)"

definition emptyChange :: IssueChange where
  "emptyChange = \<lparr> chTitle = None, chBody = None, chMilestone = None, chIssueType = None,
     AddLabels = [], RemoveLabels = [], AddAssignees = [], RemoveAssignees = [],
     AddProjects = [], RemoveProjects = [], StateTransition = None, chStateReason = None \<rparr>"

definition diffIssue :: "Issue \<Rightarrow> Issue \<Rightarrow> IssueChange" where
  "diffIssue original local =
     (let change = emptyChange;
          change = (if Title original \<noteq> Title local
                    then change\<lparr>chTitle := Some (Title local)\<rparr> else change);
          change = (if Body original \<noteq> Body local
                    then change\<lparr>chBody := Some (Body local)\<rparr> else change);
          change = change\<lparr>AddLabels := fst (diffStringSet (Labels original) (Labels local)),
                          RemoveLabels := snd (diffStringSet (Labels original) (Labels local))\<rparr>;
          change = change\<lparr>AddAssignees := fst (diffStringSet (Assignees original) (Assignees local)),
                          RemoveAssignees := snd (diffStringSet (Assignees original) (Assignees local))\<rparr>;
          change = change\<lparr>AddProjects := fst (diffStringSet (Projects original) (Projects local)),
                          RemoveProjects := snd (diffStringSet (Projects original) (Projects local))\<rparr>;
          change = (if Milestone original \<noteq> Milestone local
                    then change\<lparr>chMilestone := Some (Milestone local)\<rparr> else change);
          change = (if IssueType original \<noteq> IssueType local
                    then change\<lparr>chIssueType := Some (IssueType local)\<rparr> else change);
          change = (if State original \<noteq> [] \<and> State original \<noteq> State local
                    then (let transition = (if State local = ''closed'' then ''close''
                                            else if State local = ''open'' then ''reopen''
                                            else [])
                          in if transition \<noteq> []
                             then change\<lparr>StateTransition := Some transition\<rparr> else change)
                    else change);
          change = (if StateReason original \<noteq> None \<or> StateReason local \<noteq> None
                    then (if normalizeOptional (StateReason original)
                               \<noteq> normalizeOptional (StateReason local)
                          then change\<lparr>chStateReason := Some (normalizeOptional (StateReason local))\<rparr>
                          else change)
                    else change)
      in change)"

definition hasEdits :: "IssueChange \<Rightarrow> bool" where
  "hasEdits change \<longleftrightarrow>
     chTitle change \<noteq> None \<or> chBody change \<noteq> None \<or> chMilestone change \<noteq> None
     \<or> length (AddLabels change) > 0 \<or> length (RemoveLabels change) > 0
     \<or> length (AddAssignees change) > 0 \<or> length (RemoveAssignees change) > 0"

text \<open>A concrete record.\<close>

definition issue7 :: Issue where
  "issue7 = \<lparr> Number = ''7'', Title = ''Bug'', Body = ''text'', Labels = [''bug''],
     Assignees = [], Projects = [''p1''], Milestone = [], IssueType = ''Task'',
     State = ''open'', StateReason = None, Parent = None, BlockedBy = [], Blocks = [],
     SyncedAt = None \<rparr>"

section \<open>diff.go: line splitting and the line diff\<close>

datatype diffOpType = diffEqual | diffDelete | diffInsert

record diffOp =
  opType :: diffOpType
  opText :: string

definition TrimSuffix :: "string \<Rightarrow> string \<Rightarrow> string" where
  "TrimSuffix s suf = (if suffix suf s then take (length s - length suf) s else s)"

fun Split_nl :: "string \<Rightarrow> string list" where
  "Split_nl [] = [[]]"
| "Split_nl (c # cs) =
     (if c = CHR 0x0A then [] # Split_nl cs
      else (case Split_nl cs of [] \<Rightarrow> [[c]] | l # ls \<Rightarrow> (c # l) # ls))"

definition splitLines :: "string \<Rightarrow> string list" where
  "splitLines text = (if text = [] then [] else Split_nl (TrimSuffix text [CHR 0x0A]))"

definition set_cell :: "string list \<Rightarrow> string list \<Rightarrow> nat \<Rightarrow> nat \<Rightarrow> nat list list \<Rightarrow> nat list list" where
  "set_cell oldLines newLines i j lcs =
     (if oldLines ! (i - 1) = newLines ! (j - 1)
      then lcs[i := (lcs ! i)[j := lcs ! (i - 1) ! (j - 1) + 1]]
      else if lcs ! (i - 1) ! j \<ge> lcs ! i ! (j - 1)
      then lcs[i := (lcs ! i)[j := lcs ! (i - 1) ! j]]
      else lcs[i := (lcs ! i)[j := lcs ! i ! (j - 1)]])"

definition lcs_table :: "string list \<Rightarrow> string list \<Rightarrow> nat list list" where
  "lcs_table oldLines newLines =
     (let m = length oldLines; n = length newLines;
          lcs = replicate (m + 1) (replicate (n + 1) 0)
      in fold (\<lambda>i lcs. fold (\<lambda>j lcs. set_cell oldLines newLines i j lcs) [1..<n + 1] lcs)
           [1..<m + 1] lcs)"

function backtrack ::
  "nat list list \<Rightarrow> string list \<Rightarrow> string list \<Rightarrow> nat \<Rightarrow> nat \<Rightarrow> diffOp list \<Rightarrow> diffOp list" where
  "backtrack lcs oldLines newLines i j ops =
     (if i > 0 \<or> j > 0 then
        (if i > 0 \<and> j > 0 \<and> oldLines ! (i - 1) = newLines ! (j - 1)
         then backtrack lcs oldLines newLines (i - 1) (j - 1)
                (ops @ [\<lparr>opType = diffEqual, opText = oldLines ! (i - 1)\<rparr>])
         else if j > 0 \<and> (i = 0 \<or> lcs ! i ! (j - 1) \<ge> lcs ! (i - 1) ! j)
         then backtrack lcs oldLines newLines i (j - 1)
                (ops @ [\<lparr>opType = diffInsert, opText = newLines ! (j - 1)\<rparr>])
         else backtrack lcs oldLines newLines (i - 1) j
                (ops @ [\<lparr>opType = diffDelete, opText = oldLines ! (i - 1)\<rparr>]))
      else ops)"
  by pat_completeness auto
termination
  by (relation "measure (\<lambda>(lcs, oldLines, newLines, i, j, ops). i + j)") auto

definition computeDiff :: "string list \<Rightarrow> string list \<Rightarrow> diffOp list" where
  "computeDiff oldLines newLines =
     rev (backtrack (lcs_table oldLines newLines) oldLines newLines
            (length oldLines) (length newLines) [])"

definition old_side :: "diffOp list \<Rightarrow> string list" where
  "old_side ops = map opText (filter (\<lambda>op. opType op \<in> {diffEqual, diffDelete}) ops)"

definition new_side :: "diffOp list \<Rightarrow> string list" where
  "new_side ops = map opText (filter (\<lambda>op. opType op \<in> {diffEqual, diffInsert}) ops)"

fun join_nl :: "string list \<Rightarrow> string" where
  "join_nl [] = []"
| "join_nl [l] = l"
| "join_nl (l # ls) = l @ CHR 0x0A # join_nl ls"

text \<open>Two concrete texts: \<open>a\<newline>b\<newline>c\<newline>\<close> and \<open>a\<newline>x\<newline>c\<newline>d\<close>.\<close>

definition text_old :: string where
  "text_old = [CHR ''a'', CHR 0x0A, CHR ''b'', CHR 0x0A, CHR ''c'', CHR 0x0A]"

definition text_new :: string where
  "text_new = [CHR ''a'', CHR 0x0A, CHR ''x'', CHR 0x0A, CHR ''c'', CHR 0x0A, CHR ''d'']"

text \<open>
  What the specification asks of the line diff, in its own words. A common subsequence
  of two line sequences is a subsequence of both; \<open>n\<close> is the length of a longest one
  when some common subsequence has length \<open>n\<close> and none is longer. The cost of a script
  is its number of insert and delete operations.
\<close>

definition commonSubseq :: "string list \<Rightarrow> string list \<Rightarrow> string list \<Rightarrow> bool" where
  "commonSubseq zs xs ys = (subseq zs xs \<and> subseq zs ys)"

definition isLcsLength :: "string list \<Rightarrow> string list \<Rightarrow> nat \<Rightarrow> bool" where
  "isLcsLength xs ys n =
     ((\<exists>zs. commonSubseq zs xs ys \<and> length zs = n)
      \<and> (\<forall>zs. commonSubseq zs xs ys \<longrightarrow> length zs \<le> n))"

definition cost :: "diffOp list \<Rightarrow> nat" where
  "cost script = length (filter (\<lambda>op. opType op \<in> {diffInsert, diffDelete}) script)"

definition equalLines :: "diffOp list \<Rightarrow> string list" where
  "equalLines script = map opText (filter (\<lambda>op. opType op = diffEqual) script)"

text \<open>
  The length of a longest common subsequence of the first \<open>i\<close> old lines and the first
  \<open>j\<close> new lines, by the recurrence that the table of \<open>computeDiff\<close> is filled with.
\<close>

fun lcsAt :: "string list \<Rightarrow> string list \<Rightarrow> nat \<Rightarrow> nat \<Rightarrow> nat" where
  "lcsAt xs ys (Suc i) (Suc j) =
     (if xs ! i = ys ! j then Suc (lcsAt xs ys i j)
      else max (lcsAt xs ys i (Suc j)) (lcsAt xs ys (Suc i) j))"
| "lcsAt xs ys i j = 0"

text \<open>
  The script that the tie-break of the specification selects, for the first \<open>i\<close> old
  and the first \<open>j\<close> new lines, read from the end as the backtracking does: equal last
  lines are kept; otherwise, when dropping the last new line loses no more of the longest
  common subsequence than dropping the last old line (in particular on a tie), the new
  line is consumed as an insertion; otherwise the old line is deleted.
\<close>

function preferInsertScript :: "string list \<Rightarrow> string list \<Rightarrow> nat \<Rightarrow> nat \<Rightarrow> diffOp list" where
  "preferInsertScript xs ys i j =
     (if i = 0 \<and> j = 0 then []
      else if i > 0 \<and> j > 0 \<and> xs ! (i - 1) = ys ! (j - 1)
      then preferInsertScript xs ys (i - 1) (j - 1) @ [\<lparr>opType = diffEqual, opText = xs ! (i - 1)\<rparr>]
      else if j > 0 \<and> (i = 0 \<or> lcsAt xs ys i (j - 1) \<ge> lcsAt xs ys (i - 1) j)
      then preferInsertScript xs ys i (j - 1) @ [\<lparr>opType = diffInsert, opText = ys ! (j - 1)\<rparr>]
      else preferInsertScript xs ys (i - 1) j @ [\<lparr>opType = diffDelete, opText = xs ! (i - 1)\<rparr>])"
  by pat_completeness auto
termination
  by (relation "measure (\<lambda>(xs, ys, i, j). i + j)") auto

text \<open>The table is filled up to row \<open>i\<close>, column \<open>j\<close>, in the order of the two loops.\<close>

definition filledTo :: "string list \<Rightarrow> string list \<Rightarrow> nat list list \<Rightarrow> nat \<Rightarrow> nat \<Rightarrow> bool" where
  "filledTo xs ys t i j =
     (length t = length xs + 1
      \<and> (\<forall>r \<le> length xs. length (t ! r) = length ys + 1)
      \<and> (\<forall>r c. r \<le> length xs \<and> c \<le> length ys \<and> (r < i \<or> (r = i \<and> c \<le> j) \<or> r = 0 \<or> c = 0)
             \<longrightarrow> t ! r ! c = lcsAt xs ys r c))"

text \<open>A script that deletes every old line and then inserts every new line.\<close>

definition replaceAll :: "diffOp list" where
  "replaceAll =
     [\<lparr>opType = diffDelete, opText = ''a''\<rparr>, \<lparr>opType = diffDelete, opText = ''b''\<rparr>,
      \<lparr>opType = diffDelete, opText = ''c''\<rparr>, \<lparr>opType = diffInsert, opText = ''a''\<rparr>,
      \<lparr>opType = diffInsert, opText = ''x''\<rparr>, \<lparr>opType = diffInsert, opText = ''c''\<rparr>,
      \<lparr>opType = diffInsert, opText = ''d''\<rparr>]"

section \<open>The file system, as the code reads it\<close>

text \<open>
  A directory holds named entries; an entry is a subdirectory or a file. The content of
  a file is kept abstract (\<open>'c\<close>): for a comment file it is the outcome of
  \<open>os.ReadFile\<close> (an error or the bytes), for a record file the outcome of
  \<open>issue.ParseFile\<close> (an error or the record). A directory may be missing, or reading
  it may fail. A directory that cannot be listed is modelled as one whose files cannot
  be read either. \<open>os.ReadDir\<close> returns the entries sorted by file name.
\<close>

datatype 'c node = SubDir | File 'c

datatype 'c dir = NotExist | ReadErr string | Entries "(string \<times> 'c node) list"

datatype fs_error = ErrNotExist | ErrOther string

definition ReadDir :: "'c dir \<Rightarrow> fs_error + (string \<times> 'c node) list" where
  "ReadDir d = (case d of NotExist \<Rightarrow> Inl ErrNotExist
                | ReadErr e \<Rightarrow> Inl (ErrOther e)
                | Entries es \<Rightarrow> Inr (sort_key fst es))"

definition lookup_entry :: "'c dir \<Rightarrow> string \<Rightarrow> 'c node option" where
  "lookup_entry d name = (case d of Entries es \<Rightarrow> map_of es name | _ \<Rightarrow> None)"

definition IsDir :: "'c node \<Rightarrow> bool" where
  "IsDir nd = (case nd of SubDir \<Rightarrow> True | File _ \<Rightarrow> False)"

text \<open>\<open>filepath.Join\<close> of a directory and an entry name; \<open>filepath.Ext\<close>.\<close>

definition Join :: "string \<Rightarrow> string \<Rightarrow> string" where
  "Join d name = d @ ''/'' @ name"

definition Ext :: "string \<Rightarrow> string" where
  "Ext name = (if CHR ''.'' \<in> set name
               then CHR ''.'' # rev (takeWhile (\<lambda>c. c \<noteq> CHR ''.'') (rev name)) else [])"

definition HasSuffix :: "string \<Rightarrow> string \<Rightarrow> bool" where
  "HasSuffix s suf = suffix suf s"

definition HasPrefix :: "string \<Rightarrow> string \<Rightarrow> bool" where
  "HasPrefix s pre = prefix pre s"

section \<open>comment.go: pending comments\<close>

text \<open>
  \<open>strings.TrimSpace\<close> removes leading and trailing white space. The model covers the
  ASCII white space characters (tab, line feed, vertical tab, form feed, carriage
  return, space); the white space beyond ASCII takes several bytes in UTF-8 and is not
  covered.
\<close>

definition isSpace :: "char \<Rightarrow> bool" where
  "isSpace c = (c \<in> {CHR 0x09, CHR 0x0A, CHR 0x0B, CHR 0x0C, CHR 0x0D, CHR 0x20})"

definition TrimSpace :: "string \<Rightarrow> string" where
  "TrimSpace s = rev (dropWhile isSpace (rev (dropWhile isSpace s)))"

definition isDigit :: "char \<Rightarrow> bool" where
  "isDigit c = (CHR ''0'' \<le> c \<and> c \<le> CHR ''9'')"

definition isAlnum :: "char \<Rightarrow> bool" where
  "isAlnum c = ((CHR ''a'' \<le> c \<and> c \<le> CHR ''z'') \<or> (CHR ''A'' \<le> c \<and> c \<le> CHR ''Z'') \<or> isDigit c)"

text \<open>
  \<open>commentFilePattern\<close> is \<^verbatim>\<open>^(\d+|T[a-zA-Z0-9]+)(?:-[^.]+)?\.comment\.md$\<close>. The
  first group is followed by \<open>-\<close> or \<open>.\<close>, so it is the longest run of letters and
  digits at the start of the name; it has to be all digits, or \<open>T\<close> and at least one
  more character. The rest of the name is \<open>.comment.md\<close>, or \<open>-\<close>, a nonempty run
  without a dot, and \<open>.comment.md\<close>. \<open>FindStringSubmatch\<close> gives the first group.
\<close>

definition commentFilePattern :: "string \<Rightarrow> string option" where
  "commentFilePattern name =
     (let g = takeWhile isAlnum name; rest = dropWhile isAlnum name;
          g_ok = ((g \<noteq> [] \<and> list_all isDigit g)
                  \<or> (length g \<ge> 2 \<and> hd g = CHR ''T''));
          rest_ok = (rest = ''.comment.md''
                  \<or> (case rest of [] \<Rightarrow> False
                      | c # cs \<Rightarrow> c = CHR ''-''
                          \<and> takeWhile (\<lambda>c. c \<noteq> CHR ''.'') cs \<noteq> []
                          \<and> dropWhile (\<lambda>c. c \<noteq> CHR ''.'') cs = ''.comment.md''))
      in if g_ok \<and> rest_ok then Some g else None)"

record PendingComment =
  IssueNumber :: string
  cBody :: string
  cPath :: string

definition noComment :: PendingComment where
  "noComment = \<lparr> IssueNumber = [], cBody = [], cPath = [] \<rparr>"

text \<open>
  The file system is a function from the path of a directory to its content; the
  content of a comment file is what \<open>os.ReadFile\<close> returns.
\<close>

type_synonym comment_fs = "string \<Rightarrow> (string + string) dir"

definition ReadFile :: "comment_fs \<Rightarrow> string \<Rightarrow> string \<Rightarrow> string + string" where
  "ReadFile fs d name =
     (case lookup_entry (fs d) name of
        Some (File content) \<Rightarrow> content
      | Some SubDir \<Rightarrow> Inl ''is a directory''
      | None \<Rightarrow> Inl ''no such file'')"

text \<open>
  \<open>filepath.Glob\<close> of \<open>dir/NUMBER-*.comment.md\<close>: the names of the directory that
  start with \<open>NUMBER-\<close> and go on with anything that ends in \<open>.comment.md\<close>, sorted;
  no match when the directory cannot be read. The directory path and the number are
  taken to hold no pattern character.
\<close>

definition Glob :: "comment_fs \<Rightarrow> string \<Rightarrow> string \<Rightarrow> string list" where
  "Glob fs d numStr =
     (case ReadDir (fs d) of
        Inl _ \<Rightarrow> []
      | Inr entries \<Rightarrow>
          filter (\<lambda>name. HasPrefix name (numStr @ ''-'')
                          \<and> HasSuffix (drop (length numStr + 1) name) ''.comment.md'')
            (map fst entries))"

definition findPendingComment :: "comment_fs \<Rightarrow> string \<Rightarrow> string \<Rightarrow> PendingComment \<times> bool" where
  "findPendingComment fs d number =
     (let numStr = number in
      case ReadFile fs d (numStr @ ''.comment.md'') of
        Inr content \<Rightarrow>
          (\<lparr> IssueNumber = number, cBody = TrimSpace content,
             cPath = Join d (numStr @ ''.comment.md'') \<rparr>, True)
      | Inl _ \<Rightarrow>
          (case Glob fs d numStr of
             [] \<Rightarrow> (noComment, False)
           | m # _ \<Rightarrow>
               (case ReadFile fs d m of
                  Inl _ \<Rightarrow> (noComment, False)
                | Inr content \<Rightarrow>
                    (\<lparr> IssueNumber = number, cBody = TrimSpace content,
                       cPath = Join d m \<rparr>, True))))"

record Paths =
  OpenDir :: string
  ClosedDir :: string

definition findPendingCommentForIssue ::
  "comment_fs \<Rightarrow> Paths \<Rightarrow> string \<Rightarrow> string \<Rightarrow> PendingComment \<times> bool" where
  "findPendingCommentForIssue fs p number state =
     (let d = (if state = ''closed'' then ClosedDir p else OpenDir p) in
      case findPendingComment fs d number of
        (comment, True) \<Rightarrow> (comment, True)
      | (_, False) \<Rightarrow>
          (let otherDir = (if state = ''closed'' then OpenDir p else ClosedDir p)
           in findPendingComment fs otherDir number))"

text \<open>The body of the inner loop of \<open>loadAllPendingComments\<close>, for one entry.\<close>

definition scanEntry ::
  "comment_fs \<Rightarrow> string \<Rightarrow> (string \<rightharpoonup> PendingComment) \<Rightarrow> string \<times> (string + string) node
     \<Rightarrow> (string \<rightharpoonup> PendingComment)" where
  "scanEntry fs d comments entry =
     (let name = fst entry in
      if IsDir (snd entry) then comments
      else if \<not> HasSuffix name ''.comment.md'' then comments
      else (case commentFilePattern name of
              None \<Rightarrow> comments
            | Some number \<Rightarrow>
                (case ReadFile fs d name of
                   Inl _ \<Rightarrow> comments
                 | Inr content \<Rightarrow>
                     (let body = TrimSpace content in
                      if body = [] then comments
                      else if comments number = None
                      then comments(number \<mapsto>
                             \<lparr> IssueNumber = number, cBody = body, cPath = Join d name \<rparr>)
                      else comments))))"

definition scanDir :: "comment_fs \<Rightarrow> (string \<rightharpoonup> PendingComment) \<Rightarrow> string \<Rightarrow> (string \<rightharpoonup> PendingComment)" where
  "scanDir fs comments d =
     (case ReadDir (fs d) of
        Inl _ \<Rightarrow> comments
      | Inr entries \<Rightarrow> foldl (scanEntry fs d) comments entries)"

definition loadAllPendingComments :: "comment_fs \<Rightarrow> Paths \<Rightarrow> (string \<rightharpoonup> PendingComment)" where
  "loadAllPendingComments fs p = foldl (scanDir fs) Map.empty [OpenDir p, ClosedDir p]"

text \<open>
  A store whose open directory holds the comment file \<open>42.comment.md\<close> with the
  content of the test \<open>TestLoadAllPendingCommentsSkipsEmpty\<close> (three spaces, two line
  feeds, two spaces), and whose closed directory is empty.
\<close>

definition blank_content :: string where
  "blank_content = [CHR 0x20, CHR 0x20, CHR 0x20, CHR 0x0A, CHR 0x0A, CHR 0x20, CHR 0x20]"

definition paths0 :: Paths where
  "paths0 = \<lparr> OpenDir = ''.issues/open'', ClosedDir = ''.issues/closed'' \<rparr>"

definition blank_fs :: comment_fs where
  "blank_fs d = (if d = ''.issues/open''
                 then Entries [(''42.comment.md'', File (Inr blank_content))]
                 else if d = ''.issues/closed'' then Entries [] else NotExist)"

section \<open>helpers.go: identifier remapping\<close>

text \<open>
  \<open>localRefPattern\<close> is \<^verbatim>\<open>#(T[a-zA-Z0-9]+)\<close>. \<open>ReplaceAllStringFunc\<close> goes through
  the text from the left; a match starts at a \<open>#\<close> that is followed by \<open>T\<close> and at least
  one letter or digit, takes the longest run of letters and digits, and the scan goes on
  after the match. The callback of \<open>applyMapping\<close> strips the \<open>#\<close>, looks the identifier
  up, and on a hit sets \<open>changed\<close> and returns \<open>#\<close> with the real identifier; the flag is
  threaded through the scan.
\<close>

function replaceLocalRefs :: "(string \<rightharpoonup> string) \<Rightarrow> string \<Rightarrow> bool \<Rightarrow> string \<times> bool" where
  "replaceLocalRefs mapping [] changed = ([], changed)"
| "replaceLocalRefs mapping (c # cs) changed =
     (if c = CHR ''#'' \<and> cs \<noteq> [] \<and> hd cs = CHR ''T'' \<and> takeWhile isAlnum (tl cs) \<noteq> []
      then (let ident = CHR ''T'' # takeWhile isAlnum (tl cs);
                rest = dropWhile isAlnum (tl cs)
            in case mapping ident of
                 Some real \<Rightarrow>
                   (let r = replaceLocalRefs mapping rest True
                    in (CHR ''#'' # real @ fst r, snd r))
               | None \<Rightarrow>
                   (let r = replaceLocalRefs mapping rest changed
                    in (CHR ''#'' # ident @ fst r, snd r)))
      else (let r = replaceLocalRefs mapping cs changed in (c # fst r, snd r)))"
  by pat_completeness auto
termination
proof (relation "measure (\<lambda>(mapping, s, changed). length s)")
  show "wf (measure (\<lambda>(mapping, s, changed). length s))" by simp
next
  fix mapping :: "string \<rightharpoonup> string" and c cs changed x xa x2
  assume "xa = dropWhile isAlnum (tl cs)"
  then show "((mapping, xa, True), (mapping, c # cs, changed))
             \<in> measure (\<lambda>(mapping, s, changed). length s)"
    using length_dropWhile_le[of isAlnum "tl cs"] by (cases cs) auto
next
  fix mapping :: "string \<rightharpoonup> string" and c cs changed x xa
  assume "xa = dropWhile isAlnum (tl cs)"
  then show "((mapping, xa, changed), (mapping, c # cs, changed))
             \<in> measure (\<lambda>(mapping, s, changed). length s)"
    using length_dropWhile_le[of isAlnum "tl cs"] by (cases cs) auto
next
  fix mapping :: "string \<rightharpoonup> string" and c cs changed
  show "((mapping, cs, changed), (mapping, c # cs, changed))
             \<in> measure (\<lambda>(mapping, s, changed). length s)"
    by simp
qed

text \<open>The loop of \<open>applyMappingToRefs\<close>, and the function itself.\<close>

fun mapRefs :: "(string \<rightharpoonup> string) \<Rightarrow> string list \<Rightarrow> string list \<Rightarrow> bool \<Rightarrow> string list \<times> bool" where
  "mapRefs mapping [] updated changed = (updated, changed)"
| "mapRefs mapping (ref # refs) updated changed =
     (case mapping ref of
        Some real \<Rightarrow> mapRefs mapping refs (updated @ [real]) True
      | None \<Rightarrow> mapRefs mapping refs (updated @ [ref]) changed)"

definition applyMappingToRefs ::
  "string list \<Rightarrow> (string \<rightharpoonup> string) \<Rightarrow> bool \<Rightarrow> string list \<times> bool" where
  "applyMappingToRefs refs mapping changed =
     (if length refs = 0 then (refs, changed) else mapRefs mapping refs [] changed)"

definition applyMapping :: "Issue \<Rightarrow> (string \<rightharpoonup> string) \<Rightarrow> Issue \<times> bool" where
  "applyMapping issueItem mapping =
     (let changed = False;
          b = replaceLocalRefs mapping (Body issueItem) changed;
          changed = snd b;
          (issueItem, changed) =
             (if fst b \<noteq> Body issueItem then (issueItem\<lparr>Body := fst b\<rparr>, True)
              else (issueItem, changed));
          t = replaceLocalRefs mapping (Title issueItem) changed;
          changed = snd t;
          (issueItem, changed) =
             (if fst t \<noteq> Title issueItem then (issueItem\<lparr>Title := fst t\<rparr>, True)
              else (issueItem, changed));
          (issueItem, changed) =
             (case Parent issueItem of
                None \<Rightarrow> (issueItem, changed)
              | Some parent \<Rightarrow>
                  (case mapping parent of
                     Some real \<Rightarrow> (issueItem\<lparr>Parent := Some real\<rparr>, True)
                   | None \<Rightarrow> (issueItem, changed)));
          bb = applyMappingToRefs (BlockedBy issueItem) mapping changed;
          issueItem = issueItem\<lparr>BlockedBy := fst bb\<rparr>;
          changed = snd bb;
          bl = applyMappingToRefs (Blocks issueItem) mapping changed;
          issueItem = issueItem\<lparr>Blocks := fst bl\<rparr>;
          changed = snd bl
      in (issueItem, changed))"

text \<open>
  Identifiers, as the patterns of the code have them: a canonical identifier is a
  nonempty run of digits, a temporary one is \<open>T\<close> followed by at least one letter or
  digit. A mapping of a push goes from temporary to canonical identifiers.
\<close>

definition isCanonical :: "string \<Rightarrow> bool" where
  "isCanonical v = (v \<noteq> [] \<and> list_all isDigit v)"

definition isTemporary :: "string \<Rightarrow> bool" where
  "isTemporary k = (case k of [] \<Rightarrow> False
                    | c # run \<Rightarrow> c = CHR ''T'' \<and> run \<noteq> [] \<and> list_all isAlnum run)"

definition tempToCanonical :: "(string \<rightharpoonup> string) \<Rightarrow> bool" where
  "tempToCanonical mapping =
     (\<forall>k v. mapping k = Some v \<longrightarrow> isTemporary k \<and> isCanonical v)"

text \<open>The records and the mapping of the example of the specification, section 8.\<close>

definition issueTabc1 :: Issue where
  "issueTabc1 = \<lparr> Number = ''Tabc1'', Title = ''Fix X (see #Tdef2)'', Body = ''blocks #Tdef2, not #Tzzz9'',
     Labels = [], Assignees = [], Projects = [], Milestone = [], IssueType = [],
     State = ''open'', StateReason = None, Parent = Some ''Tdef2'', BlockedBy = [''Tdef2'', ''17''],
     Blocks = [''Tabc1''], SyncedAt = None \<rparr>"

definition mapping8 :: "string \<rightharpoonup> string" where
  "mapping8 = [''Tabc1'' \<mapsto> ''201'', ''Tdef2'' \<mapsto> ''202'']"

text \<open>The two results of the scan, taken apart: the new text, and whether an identifier was hit.\<close>

definition remapText :: "(string \<rightharpoonup> string) \<Rightarrow> string \<Rightarrow> string" where
  "remapText mapping s = fst (replaceLocalRefs mapping s False)"

definition textHit :: "(string \<rightharpoonup> string) \<Rightarrow> string \<Rightarrow> bool" where
  "textHit mapping s = snd (replaceLocalRefs mapping s False)"

definition remapRef :: "(string \<rightharpoonup> string) \<Rightarrow> string \<Rightarrow> string" where
  "remapRef mapping ref = (case mapping ref of Some real \<Rightarrow> real | None \<Rightarrow> ref)"

text \<open>Whether a match of the pattern starts at the head of a text.\<close>

definition isMatch :: "string \<Rightarrow> bool" where
  "isMatch s = (case s of [] \<Rightarrow> False | c # cs \<Rightarrow> c = CHR ''#'' \<and> cs \<noteq> [] \<and> hd cs = CHR ''T'' \<and> takeWhile isAlnum (tl cs) \<noteq> [])"

text \<open>What \<open>applyMapping\<close> returns, field by field.\<close>

definition remapped :: "Issue \<Rightarrow> (string \<rightharpoonup> string) \<Rightarrow> Issue" where
  "remapped i m = i\<lparr> Body := remapText m (Body i), Title := remapText m (Title i),
       Parent := map_option (remapRef m) (Parent i),
       BlockedBy := map (remapRef m) (BlockedBy i), Blocks := map (remapRef m) (Blocks i) \<rparr>"

definition remapChanged :: "Issue \<Rightarrow> (string \<rightharpoonup> string) \<Rightarrow> bool" where
  "remapChanged i m = (textHit m (Body i) \<or> remapText m (Body i) \<noteq> Body i
       \<or> textHit m (Title i) \<or> remapText m (Title i) \<noteq> Title i
       \<or> (case Parent i of None \<Rightarrow> False | Some p \<Rightarrow> m p \<noteq> None)
       \<or> list_ex (\<lambda>r. m r \<noteq> None) (BlockedBy i) \<or> list_ex (\<lambda>r. m r \<noteq> None) (Blocks i))"

definition issue201 :: Issue where
  "issue201 = \<lparr> Number = ''Tabc1'', Title = ''Fix X (see #202)'', Body = ''blocks #202, not #Tzzz9'',
     Labels = [], Assignees = [], Projects = [], Milestone = [], IssueType = [],
     State = ''open'', StateReason = None, Parent = Some ''202'', BlockedBy = [''202'', ''17''],
     Blocks = [''201''], SyncedAt = None \<rparr>"

section \<open>storage.go: the local record store\<close>

text \<open>
  The store has three directories: the open records, the closed records and the original
  snapshots. The content of a file is what \<open>issue.ParseFile\<close> returns on it: the cause
  of a failure, or the record. A path is a directory and an entry name
  (\<open>filepath.Join\<close> of the two).
\<close>

type_synonym parsed = "string + Issue"

datatype dirkey = InOpen | InClosed

type_synonym fpath = "dirkey \<times> string"

record Store =
  openDir :: "parsed dir"
  closedDir :: "parsed dir"
  originalsDir :: "parsed dir"
  lastFullPull :: "nat option"

definition dirOf :: "Store \<Rightarrow> dirkey \<Rightarrow> parsed dir" where
  "dirOf st dk = (case dk of InOpen \<Rightarrow> openDir st | InClosed \<Rightarrow> closedDir st)"

record IssueFile =
  ifIssue :: Issue
  ifPath :: fpath
  ifState :: string

text \<open>
  The path of a \<open>ParseError\<close> is the directory itself when the directory cannot be read,
  and the path of the file relative to the parent of the store otherwise.
\<close>

datatype err_path = DirPath dirkey | RelPath dirkey string

record ParseError =
  pePath :: err_path
  peErr :: string

record LoadResult =
  Issues :: "IssueFile list"
  Errors :: "ParseError list"

text \<open>The body of the inner loop of \<open>loadLocalIssuesWithErrors\<close>, for one entry.\<close>

definition loadEntry :: "dirkey \<Rightarrow> string \<Rightarrow> LoadResult \<Rightarrow> string \<times> parsed node \<Rightarrow> LoadResult" where
  "loadEntry dk state result entry =
     (if IsDir (snd entry) then result
      else if Ext (fst entry) \<noteq> ''.md'' then result
      else (case snd entry of
              SubDir \<Rightarrow> result
            | File (Inl err) \<Rightarrow>
                result\<lparr>Errors := Errors result @ [\<lparr>pePath = RelPath dk (fst entry), peErr = err\<rparr>]\<rparr>
            | File (Inr parsed) \<Rightarrow>
                result\<lparr>Issues := Issues result @
                   [\<lparr>ifIssue = parsed\<lparr>State := state\<rparr>, ifPath = (dk, fst entry), ifState = state\<rparr>]\<rparr>))"

text \<open>The outer loop: a missing directory is skipped, any other read error ends the load.\<close>

fun loadDirs :: "Store \<Rightarrow> (dirkey \<times> string) list \<Rightarrow> LoadResult \<Rightarrow> LoadResult" where
  "loadDirs st [] result = result"
| "loadDirs st ((dk, state) # ds) result =
     (case ReadDir (dirOf st dk) of
        Inl ErrNotExist \<Rightarrow> loadDirs st ds result
      | Inl (ErrOther e) \<Rightarrow> result\<lparr>Errors := Errors result @ [\<lparr>pePath = DirPath dk, peErr = e\<rparr>]\<rparr>
      | Inr entries \<Rightarrow> loadDirs st ds (foldl (loadEntry dk state) result entries))"

definition loadLocalIssuesWithErrors :: "Store \<Rightarrow> LoadResult" where
  "loadLocalIssuesWithErrors st =
     loadDirs st [(InOpen, ''open''), (InClosed, ''closed'')] \<lparr>Issues = [], Errors = []\<rparr>"

definition loadLocalIssues :: "Store \<Rightarrow> ParseError + IssueFile list" where
  "loadLocalIssues st =
     (let result = loadLocalIssuesWithErrors st
      in if length (Errors result) > 0 then Inl (hd (Errors result)) else Inr (Issues result))"

definition readOriginalIssue :: "Store \<Rightarrow> string \<Rightarrow> Issue option" where
  "readOriginalIssue st number =
     (case lookup_entry (originalsDir st) (number @ ''.md'') of
        Some (File (Inr parsed)) \<Rightarrow> Some parsed
      | _ \<Rightarrow> None)"

text \<open>
  What the specification says a load returns, in its own words: every record file that
  parses, with its location and state, and every failure with its path. Record files
  are the entries of a directory that are files named \<open>*.md\<close>, in the order of
  \<open>os.ReadDir\<close>.
\<close>

definition recordFiles :: "parsed dir \<Rightarrow> (string \<times> parsed) list" where
  "recordFiles d =
     (case ReadDir d of
        Inl _ \<Rightarrow> []
      | Inr entries \<Rightarrow>
          concat (map (\<lambda>(name, nd). case nd of SubDir \<Rightarrow> []
                                   | File c \<Rightarrow> if Ext name = ''.md'' then [(name, c)] else [])
                 entries))"

definition parsedRecords :: "dirkey \<Rightarrow> string \<Rightarrow> parsed dir \<Rightarrow> IssueFile list" where
  "parsedRecords dk state d =
     concat (map (\<lambda>(name, c). case c of Inl _ \<Rightarrow> []
                  | Inr parsed \<Rightarrow> [\<lparr>ifIssue = parsed\<lparr>State := state\<rparr>, ifPath = (dk, name), ifState = state\<rparr>])
             (recordFiles d))"

definition parseFailures :: "dirkey \<Rightarrow> parsed dir \<Rightarrow> ParseError list" where
  "parseFailures dk d =
     concat (map (\<lambda>(name, c). case c of Inl err \<Rightarrow> [\<lparr>pePath = RelPath dk name, peErr = err\<rparr>]
                  | Inr _ \<Rightarrow> [])
             (recordFiles d))"

definition readable :: "'c dir \<Rightarrow> bool" where
  "readable d = (case d of ReadErr _ \<Rightarrow> False | _ \<Rightarrow> True)"

section \<open>pull.go: the pull reconciler\<close>

text \<open>
  Modelled from the spec: \<open>issue.EqualIgnoringSyncedAt\<close>, of the package
  \<open>internal/issue\<close>, which is not among the sources. Section 4.4: equality of two records
  ignores \<open>SyncedAt\<close> only; every other field takes part, \<open>BlockedBy\<close> and \<open>Blocks\<close> as
  sequences, \<open>Labels\<close>, \<open>Assignees\<close> and \<open>Projects\<close> as sets.
\<close>

definition EqualIgnoringSyncedAt :: "Issue \<Rightarrow> Issue \<Rightarrow> bool" where
  "EqualIgnoringSyncedAt a b =
     (Number a = Number b \<and> Title a = Title b \<and> Body a = Body b
      \<and> set (Labels a) = set (Labels b) \<and> set (Assignees a) = set (Assignees b)
      \<and> set (Projects a) = set (Projects b)
      \<and> Milestone a = Milestone b \<and> IssueType a = IssueType b
      \<and> State a = State b \<and> StateReason a = StateReason b \<and> Parent a = Parent b
      \<and> BlockedBy a = BlockedBy b \<and> Blocks a = Blocks b)"

text \<open>
  Modelled from the spec: \<open>issue.PathFor\<close>, of the same package. Sections 4.1 and 6: the
  location of a record is derived from its state, its number and the slug of its title,
  as \<open>open/<number>[-<slug>].md\<close> or \<open>closed/<number>[-<slug>].md\<close>. The slug function is
  a parameter.
\<close>

definition PathFor :: "(string \<Rightarrow> string) \<Rightarrow> dirkey \<Rightarrow> string \<Rightarrow> string \<Rightarrow> fpath" where
  "PathFor slug targetDir number title =
     (targetDir, number @ (if slug title = [] then [] else ''-'' @ slug title) @ ''.md'')"

text \<open>\<open>strings.ToLower\<close>, on the ASCII letters.\<close>

definition toLowerChar :: "char \<Rightarrow> char" where
  "toLowerChar c = (if CHR ''A'' \<le> c \<and> c \<le> CHR ''Z'' then char_of (of_char c + (32::nat)) else c)"

definition ToLower :: "string \<Rightarrow> string" where
  "ToLower s = map toLowerChar s"

text \<open>
  What a pull finds outside the store. The fetch phase of \<open>Pull\<close> (the remote calls
  before the reconciliation, which read the arguments, the options and the local records
  loaded first) is the function \<open>Fetch\<close>: a fatal error, or the remote records and the
  label colours. \<open>GetIssue\<close> and \<open>Enrich\<close> are the two remote calls of the restoration;
  the three lists are the vocabulary calls of a full pull. A file operation fails when
  its oracle gives an error. The clock is read once.
\<close>

record PullOptions =
  All :: bool
  Force :: bool
  Label :: "string list"

record Env =
  Now :: nat
  Slug :: "string \<Rightarrow> string"
  Fetch :: "PullOptions \<Rightarrow> string list \<Rightarrow> IssueFile list
              \<Rightarrow> string + (Issue list \<times> (string \<times> string) list)"
  GetIssue :: "string \<Rightarrow> string + Issue"
  Enrich :: "Issue \<Rightarrow> Issue \<times> string option"
  ListMilestones :: "string + string list"
  ListIssueTypes :: "string + string list"
  ListProjects :: "string + string list"
  RenameErr :: "fpath \<Rightarrow> fpath \<Rightarrow> string option"
  WriteErr :: "fpath \<Rightarrow> string option"
  WriteOriginalErr :: "string \<Rightarrow> string option"
  SaveConfigErr :: "string option"

text \<open>The file operations of a pull, and what it prints for a record.\<close>

datatype fs_op =
    OpRename fpath fpath
  | OpWriteIssue fpath
  | OpWriteOriginal string
  | OpSaveConfig
  | OpSaveCache string

datatype event = Added string | Updated string | Restored string

record PullState =
  store :: Store
  fsops :: "fs_op list"
  conflicts :: "string list"
  unchanged :: nat
  printed :: "event list"

datatype pull_error = LoadFailed ParseError | FetchFailed string | FsFailed string

definition putNode :: "parsed dir \<Rightarrow> string \<Rightarrow> parsed node \<Rightarrow> parsed dir" where
  "putNode d name nd =
     (case d of
        NotExist \<Rightarrow> Entries [(name, nd)]
      | ReadErr e \<Rightarrow> ReadErr e
      | Entries es \<Rightarrow> Entries (AList.update name nd es))"

definition dropNode :: "parsed dir \<Rightarrow> string \<Rightarrow> parsed dir" where
  "dropNode d name =
     (case d of Entries es \<Rightarrow> Entries (AList.delete name es) | _ \<Rightarrow> d)"

definition setDir :: "Store \<Rightarrow> dirkey \<Rightarrow> parsed dir \<Rightarrow> Store" where
  "setDir st dk d = (case dk of InOpen \<Rightarrow> st\<lparr>openDir := d\<rparr> | InClosed \<Rightarrow> st\<lparr>closedDir := d\<rparr>)"

definition putFile :: "Store \<Rightarrow> fpath \<Rightarrow> parsed node \<Rightarrow> Store" where
  "putFile st path nd = setDir st (fst path) (putNode (dirOf st (fst path)) (snd path) nd)"

definition dropFile :: "Store \<Rightarrow> fpath \<Rightarrow> Store" where
  "dropFile st path = setDir st (fst path) (dropNode (dirOf st (fst path)) (snd path))"

definition fileAt :: "Store \<Rightarrow> fpath \<Rightarrow> parsed node option" where
  "fileAt st path = lookup_entry (dirOf st (fst path)) (snd path)"

definition dirsReadable :: "Store \<Rightarrow> bool" where
  "dirsReadable st = (readable (openDir st) \<and> readable (closedDir st) \<and> readable (originalsDir st))"

text \<open>
  \<open>os.Rename\<close>: fails when the oracle says so or when there is nothing at the old
  path; otherwise the entry moves to the new path, replacing what was there.
\<close>

definition Rename :: "Env \<Rightarrow> PullState \<Rightarrow> fpath \<Rightarrow> fpath \<Rightarrow> pull_error + PullState" where
  "Rename env s oldPath newPath =
     (case RenameErr env oldPath newPath of
        Some e \<Rightarrow> Inl (FsFailed e)
      | None \<Rightarrow>
          (case fileAt (store s) oldPath of
             None \<Rightarrow> Inl (FsFailed ''no such file'')
           | Some nd \<Rightarrow>
               Inr (s\<lparr>store := putFile (dropFile (store s) oldPath) newPath nd,
                      fsops := fsops s @ [OpRename oldPath newPath]\<rparr>)))"

text \<open>
  \<open>issue.WriteFile\<close> of a record file: afterwards the file parses to the record
  written.
\<close>

definition WriteFile :: "Env \<Rightarrow> PullState \<Rightarrow> fpath \<Rightarrow> Issue \<Rightarrow> pull_error + PullState" where
  "WriteFile env s path item =
     (case WriteErr env path of
        Some e \<Rightarrow> Inl (FsFailed e)
      | None \<Rightarrow>
          Inr (s\<lparr>store := putFile (store s) path (File (Inr item)),
                 fsops := fsops s @ [OpWriteIssue path]\<rparr>))"

definition putOriginal :: "Store \<Rightarrow> Issue \<Rightarrow> Store" where
  "putOriginal st item =
     st\<lparr>originalsDir := putNode (originalsDir st) (Number item @ ''.md'') (File (Inr item))\<rparr>"

definition writeOriginalIssue :: "Env \<Rightarrow> PullState \<Rightarrow> Issue \<Rightarrow> pull_error + PullState" where
  "writeOriginalIssue env s item =
     (case WriteOriginalErr env (Number item) of
        Some e \<Rightarrow> Inl (FsFailed e)
      | None \<Rightarrow>
          Inr (s\<lparr>store := putOriginal (store s) item,
                 fsops := fsops s @ [OpWriteOriginal (Number item)]\<rparr>))"

text \<open>\<open>localByNumber\<close>: a later record file with the same number replaces an earlier one.\<close>

definition localByNumber :: "IssueFile list \<Rightarrow> (string \<rightharpoonup> IssueFile)" where
  "localByNumber localIssues =
     fold (\<lambda>item m. m(Number (ifIssue item) \<mapsto> item)) localIssues Map.empty"

text \<open>The body of the reconciliation loop, for one remote record.\<close>

definition pullStep ::
  "Env \<Rightarrow> PullOptions \<Rightarrow> (string \<rightharpoonup> IssueFile) \<Rightarrow> PullState \<Rightarrow> Issue \<Rightarrow> pull_error + PullState" where
  "pullStep env opts byNumber s remote0 =
     (let remote = remote0\<lparr>State := ToLower (State remote0), SyncedAt := Some (Now env)\<rparr>;
          localF = byNumber (Number remote);
          hasLocal = (localF \<noteq> None);
          original = readOriginalIssue (store s) (Number remote);
          hasOriginal = (original \<noteq> None);
          localChanged =
            (case localF of
               None \<Rightarrow> False
             | Some l \<Rightarrow>
                 (case original of
                    None \<Rightarrow> True
                  | Some orig \<Rightarrow> \<not> EqualIgnoringSyncedAt (ifIssue l) orig))
      in if hasLocal \<and> localChanged \<and> \<not> Force opts
         then Inr (s\<lparr>conflicts := conflicts s @ [Number remote]\<rparr>)
         else
           (let targetDir = (if State remote = ''closed'' then InClosed else InOpen);
                newPath = PathFor (Slug env) targetDir (Number remote) (Title remote);
                contentChanged =
                  (case localF of None \<Rightarrow> True
                   | Some l \<Rightarrow> \<not> EqualIgnoringSyncedAt (ifIssue l) remote);
                pathChanged =
                  (case localF of None \<Rightarrow> False | Some l \<Rightarrow> ifPath l \<noteq> newPath)
            in if hasOriginal \<and> \<not> contentChanged \<and> \<not> pathChanged
               then Inr (s\<lparr>unchanged := unchanged s + 1\<rparr>)
               else
                 (case (case localF of
                          Some l \<Rightarrow> if ifPath l \<noteq> newPath then Rename env s (ifPath l) newPath
                                    else Inr s
                        | None \<Rightarrow> Inr s) of
                    Inl e \<Rightarrow> Inl e
                  | Inr s1 \<Rightarrow>
                      (case WriteFile env s1 newPath remote of
                         Inl e \<Rightarrow> Inl e
                       | Inr s2 \<Rightarrow>
                           (case writeOriginalIssue env s2 remote of
                              Inl e \<Rightarrow> Inl e
                            | Inr s3 \<Rightarrow>
                                Inr (s3\<lparr>printed := printed s3 @
                                       [if hasLocal then Updated (Number remote)
                                        else Added (Number remote)]\<rparr>))))))"

fun pullLoop ::
  "Env \<Rightarrow> PullOptions \<Rightarrow> (string \<rightharpoonup> IssueFile) \<Rightarrow> PullState \<Rightarrow> Issue list \<Rightarrow> pull_error + PullState" where
  "pullLoop env opts byNumber s [] = Inr s"
| "pullLoop env opts byNumber s (remote # rest) =
     (case pullStep env opts byNumber s remote of
        Inl e \<Rightarrow> Inl e
      | Inr s' \<Rightarrow> pullLoop env opts byNumber s' rest)"

text \<open>
  The side effects of a full pull: the configuration is saved with the time of the
  pull, then the caches. A cache that cannot be fetched or saved is a warning only.
\<close>

definition saveSideEffects :: "Env \<Rightarrow> (string \<times> string) list \<Rightarrow> PullState \<Rightarrow> pull_error + PullState" where
  "saveSideEffects env labelColors s =
     (case SaveConfigErr env of
        Some e \<Rightarrow> Inl (FsFailed e)
      | None \<Rightarrow>
          (let s = s\<lparr>store := (store s)\<lparr>lastFullPull := Some (Now env)\<rparr>,
                      fsops := fsops s @ [OpSaveConfig]\<rparr>;
               s = (if length labelColors > 0
                    then s\<lparr>fsops := fsops s @ [OpSaveCache ''labels'']\<rparr> else s);
               s = (case ListMilestones env of
                      Inl _ \<Rightarrow> s
                    | Inr _ \<Rightarrow> s\<lparr>fsops := fsops s @ [OpSaveCache ''milestones'']\<rparr>);
               s = (case ListIssueTypes env of
                      Inl _ \<Rightarrow> s
                    | Inr ts \<Rightarrow> if length ts > 0
                               then s\<lparr>fsops := fsops s @ [OpSaveCache ''issuetypes'']\<rparr> else s);
               s = (case ListProjects env of
                      Inl _ \<Rightarrow> s
                    | Inr ps \<Rightarrow> if length ps > 0
                               then s\<lparr>fsops := fsops s @ [OpSaveCache ''projects'']\<rparr> else s)
           in Inr s))"

text \<open>The restoration of records that have a snapshot and no local file.\<close>

definition orphanedOf :: "(string \<times> parsed node) list \<Rightarrow> IssueFile list \<Rightarrow> string list" where
  "orphanedOf entries localIssues =
     concat (map (\<lambda>entry.
        if IsDir (snd entry) \<or> Ext (fst entry) \<noteq> ''.md'' then []
        else (let number = TrimSuffix (fst entry) ''.md''
              in if HasPrefix number ''T'' then []
                 else if number \<in> set (map (\<lambda>item. Number (ifIssue item)) localIssues) then []
                 else [number])) entries)"

definition restoreStep :: "Env \<Rightarrow> PullState \<Rightarrow> string \<Rightarrow> pull_error + PullState" where
  "restoreStep env s number =
     (case GetIssue env number of
        Inl _ \<Rightarrow> Inr s
      | Inr remote0 \<Rightarrow>
          (let remote1 = fst (Enrich env remote0);
               remote = remote1\<lparr>State := ToLower (State remote1), SyncedAt := Some (Now env)\<rparr>;
               targetDir = (if State remote = ''closed'' then InClosed else InOpen);
               newPath = PathFor (Slug env) targetDir (Number remote) (Title remote)
           in case WriteFile env s newPath remote of
                Inl e \<Rightarrow> Inl e
              | Inr s1 \<Rightarrow>
                  (case writeOriginalIssue env s1 remote of
                     Inl e \<Rightarrow> Inl e
                   | Inr s2 \<Rightarrow> Inr (s2\<lparr>printed := printed s2 @ [Restored (Number remote)]\<rparr>))))"

fun restoreLoop :: "Env \<Rightarrow> PullState \<Rightarrow> string list \<Rightarrow> pull_error + PullState" where
  "restoreLoop env s [] = Inr s"
| "restoreLoop env s (number # rest) =
     (case restoreStep env s number of
        Inl e \<Rightarrow> Inl e
      | Inr s' \<Rightarrow> restoreLoop env s' rest)"

definition restoreDeletedIssues :: "Env \<Rightarrow> PullState \<Rightarrow> pull_error + PullState" where
  "restoreDeletedIssues env s =
     (case ReadDir (originalsDir (store s)) of
        Inl ErrNotExist \<Rightarrow> Inr s
      | Inl (ErrOther e) \<Rightarrow> Inl (FsFailed e)
      | Inr entries \<Rightarrow>
          (case loadLocalIssues (store s) of
             Inl pe \<Rightarrow> Inl (LoadFailed pe)
           | Inr localIssues \<Rightarrow>
               (let orphaned = orphanedOf entries localIssues
                in if length orphaned = 0 then Inr s else restoreLoop env s orphaned)))"

definition Pull :: "Env \<Rightarrow> PullOptions \<Rightarrow> string list \<Rightarrow> Store \<Rightarrow> pull_error + PullState" where
  "Pull env opts args st =
     (case loadLocalIssues st of
        Inl pe \<Rightarrow> Inl (LoadFailed pe)
      | Inr localIssues0 \<Rightarrow>
          (case Fetch env opts args localIssues0 of
             Inl e \<Rightarrow> Inl (FetchFailed e)
           | Inr (remoteIssues, labelColors) \<Rightarrow>
               (case loadLocalIssues st of
                  Inl pe \<Rightarrow> Inl (LoadFailed pe)
                | Inr localIssues \<Rightarrow>
                    (let s0 = \<lparr>store = st, fsops = [], conflicts = [], unchanged = 0, printed = []\<rparr>
                     in case pullLoop env opts (localByNumber localIssues) s0 remoteIssues of
                          Inl e \<Rightarrow> Inl e
                        | Inr s1 \<Rightarrow>
                            (case (if length args = 0 then saveSideEffects env labelColors s1
                                   else Inr s1) of
                               Inl e \<Rightarrow> Inl e
                             | Inr s2 \<Rightarrow>
                                 (let s3 = s2\<lparr>conflicts := sort (conflicts s2)\<rparr>
                                  in if length args = 0 then restoreDeletedIssues env s3
                                     else Inr s3))))))"

text \<open>
  The remote record as the loop body uses it (state in lower case, time of the pull),
  and the location it belongs at.
\<close>

definition normalized :: "Env \<Rightarrow> Issue \<Rightarrow> Issue" where
  "normalized env remote0 = remote0\<lparr>State := ToLower (State remote0), SyncedAt := Some (Now env)\<rparr>"

definition targetPath :: "Env \<Rightarrow> Issue \<Rightarrow> fpath" where
  "targetPath env remote0 =
     PathFor (Slug env) (if ToLower (State remote0) = ''closed'' then InClosed else InOpen)
       (Number remote0) (Title remote0)"


section \<open>Two pulls in a row\<close>

text \<open>Running pull a second time on the store that a successful pull left behind.\<close>

definition pullTwice ::
  "Env \<Rightarrow> Env \<Rightarrow> PullOptions \<Rightarrow> string list \<Rightarrow> Store \<Rightarrow> pull_error + PullState" where
  "pullTwice env env2 opts args st =
     (case Pull env opts args st of
        Inl e \<Rightarrow> Inl e
      | Inr s1 \<Rightarrow> Pull env2 opts args (store s1))"

text \<open>The operations on record files and snapshots, as opposed to configuration and caches.\<close>

definition isRecordOp :: "fs_op \<Rightarrow> bool" where
  "isRecordOp op = (case op of OpSaveConfig \<Rightarrow> False | OpSaveCache _ \<Rightarrow> False | _ \<Rightarrow> True)"

text \<open>
  The record that a load finds at a path, and the value the load makes of it (the state
  is the one of the directory).
\<close>

definition stateOf :: "dirkey \<Rightarrow> string" where
  "stateOf dk = (case dk of InOpen \<Rightarrow> ''open'' | InClosed \<Rightarrow> ''closed'')"

definition recordAt :: "Store \<Rightarrow> fpath \<Rightarrow> Issue option" where
  "recordAt st p =
     (case fileAt st p of
        Some (File (Inr i)) \<Rightarrow> if Ext (snd p) = ''.md'' then Some i else None
      | _ \<Rightarrow> None)"

definition asLoaded :: "fpath \<Rightarrow> Issue \<Rightarrow> IssueFile" where
  "asLoaded p i = \<lparr>ifIssue = i\<lparr>State := stateOf (fst p)\<rparr>, ifPath = p, ifState = stateOf (fst p)\<rparr>"

text \<open>
  A tidy store: the directories can be listed and have no name twice; every file named
  \<open>*.md\<close> in the open and closed directories parses, and its name starts with the number
  of its record (the letters and digits before the first other character); no two record
  files hold the same number.
\<close>

definition owner :: "string \<Rightarrow> string" where
  "owner name = takeWhile isAlnum name"

definition namesDistinct :: "'c dir \<Rightarrow> bool" where
  "namesDistinct d = (case d of Entries es \<Rightarrow> distinct (map fst es) | _ \<Rightarrow> True)"

definition tidyStore :: "Store \<Rightarrow> bool" where
  "tidyStore st =
     (dirsReadable st
      \<and> namesDistinct (openDir st) \<and> namesDistinct (closedDir st) \<and> namesDistinct (originalsDir st)
      \<and> (\<forall>p c. fileAt st p = Some (File c) \<and> Ext (snd p) = ''.md''
              \<longrightarrow> (\<exists>i. c = Inr i \<and> owner (snd p) = Number i))
      \<and> (\<forall>p q i j. recordAt st p = Some i \<and> recordAt st q = Some j \<and> Number i = Number j
              \<longrightarrow> p = q))"

text \<open>
  A remote record is settled in a store when the loop body has nothing to do for it: it
  is skipped as a conflict, or it is counted as unchanged.
\<close>

definition settled :: "Env \<Rightarrow> PullOptions \<Rightarrow> Store \<Rightarrow> Issue \<Rightarrow> bool" where
  "settled env opts st r =
     (\<exists>p i. recordAt st p = Some i \<and> Number i = Number r
        \<and> ((\<not> Force opts
             \<and> (case readOriginalIssue st (Number r) of
                   None \<Rightarrow> True
                 | Some orig \<Rightarrow> \<not> EqualIgnoringSyncedAt (ifIssue (asLoaded p i)) orig))
            \<or> (readOriginalIssue st (Number r) \<noteq> None
                \<and> EqualIgnoringSyncedAt (ifIssue (asLoaded p i)) (normalized env r)
                \<and> p = targetPath env r)))"

text \<open>Two stores agree on a number: the same record files and the same snapshot for it.\<close>

definition agreeOn :: "Store \<Rightarrow> Store \<Rightarrow> string \<Rightarrow> bool" where
  "agreeOn st st' n =
     ((\<forall>p i. Number i = n \<longrightarrow> (recordAt st p = Some i) = (recordAt st' p = Some i))
      \<and> readOriginalIssue st n = readOriginalIssue st' n)"

text \<open>The map of local records by number says what the store holds for a number.\<close>

definition mirrors :: "(string \<rightharpoonup> IssueFile) \<Rightarrow> Store \<Rightarrow> string \<Rightarrow> bool" where
  "mirrors byNumber st n =
     (\<forall>l. (byNumber n = Some l) = (\<exists>p i. recordAt st p = Some i \<and> Number i = n \<and> l = asLoaded p i))"

text \<open>
  The remote side behaves: a fetched record has a number of letters and digits and a
  state that is open or closed in any case of letters, no number is fetched twice, and
  \<open>GetIssue\<close> answers with the record of the number asked for.
\<close>

definition remoteRecordOk :: "Issue \<Rightarrow> bool" where
  "remoteRecordOk r = (list_all isAlnum (Number r) \<and> ToLower (State r) \<in> {''open'', ''closed''})"

definition fetchedOk :: "Issue list \<Rightarrow> bool" where
  "fetchedOk rs = (distinct (map Number rs) \<and> list_all remoteRecordOk rs)"

definition getIssueOk :: "Env \<Rightarrow> bool" where
  "getIssueOk env =
     (\<forall>n i. GetIssue env n = Inr i \<longrightarrow>
        Number (fst (Enrich env i)) = n \<and> list_all isAlnum n)"

section \<open>Concrete stores and remote records\<close>

text \<open>
  Issue 7 with its snapshot (body \<open>A\<close>), a local copy edited to \<open>A-edited\<close>, and the
  remote record as the service returns it: unchanged, state in upper case.
\<close>

definition orig7 :: Issue where
  "orig7 = \<lparr> Number = ''7'', Title = ''Bug'', Body = ''A'', Labels = [''bug''],
     Assignees = [], Projects = [], Milestone = [], IssueType = [],
     State = ''open'', StateReason = None, Parent = None, BlockedBy = [], Blocks = [],
     SyncedAt = Some 1 \<rparr>"

definition local7 :: Issue where
  "local7 = orig7\<lparr>Body := ''A-edited''\<rparr>"

definition remote7 :: Issue where
  "remote7 = orig7\<lparr>State := ''OPEN'', SyncedAt := None\<rparr>"

definition store7 :: Store where
  "store7 = \<lparr> openDir = Entries [(''7-bug.md'', File (Inr local7))],
     closedDir = Entries [],
     originalsDir = Entries [(''7.md'', File (Inr orig7))],
     lastFullPull = None \<rparr>"

definition file7 :: IssueFile where
  "file7 = \<lparr> ifIssue = local7, ifPath = (InOpen, ''7-bug.md''), ifState = ''open'' \<rparr>"

definition env7 :: Env where
  "env7 = \<lparr> Now = 100, Slug = ToLower,
     Fetch = (\<lambda>opts args localIssues. Inr ([remote7], [])),
     GetIssue = (\<lambda>number. Inl ''not found''),
     Enrich = (\<lambda>item. (item, None)),
     ListMilestones = Inr [], ListIssueTypes = Inr [], ListProjects = Inr [],
     RenameErr = (\<lambda>oldPath newPath. None), WriteErr = (\<lambda>path. None),
     WriteOriginalErr = (\<lambda>number. None), SaveConfigErr = None \<rparr>"

definition noForce :: PullOptions where
  "noForce = \<lparr> All = False, Force = False, Label = [] \<rparr>"

definition withForce :: PullOptions where
  "withForce = \<lparr> All = False, Force = True, Label = [] \<rparr>"


text \<open>The same store with a second record file that does not parse.\<close>

definition storeBad :: Store where
  "storeBad = store7\<lparr>openDir := Entries [(''7-bug.md'', File (Inr local7)),
                                          (''9-bad.md'', File (Inl ''missing front matter''))]\<rparr>"


definition store7clean :: Store where
  "store7clean = store7\<lparr>openDir := Entries [(''7-bug.md'', File (Inr orig7))]\<rparr>"

definition file7clean :: IssueFile where
  "file7clean = \<lparr> ifIssue = orig7, ifPath = (InOpen, ''7-bug.md''), ifState = ''open'' \<rparr>"

definition remote7edited :: Issue where
  "remote7edited = remote7\<lparr>Body := ''A-remote''\<rparr>"

section \<open>Properties of the set difference\<close>

lemma diffStringSet_fst_set: "set (fst (diffStringSet old new)) = set new - set old"
  by (auto simp: diffStringSet_def map_keys_def Let_def)

lemma diffStringSet_snd_set: "set (snd (diffStringSet old new)) = set old - set new"
  by (auto simp: diffStringSet_def map_keys_def Let_def)

lemma diffStringSet_sorted:
  "sorted (fst (diffStringSet old new))" "sorted (snd (diffStringSet old new))"
  by (simp_all add: diffStringSet_def Let_def)

lemma diffStringSet_distinct:
  "distinct (fst (diffStringSet old new))" "distinct (snd (diffStringSet old new))"
  by (simp_all add: diffStringSet_def map_keys_def Let_def)

text \<open>Any other enumeration of the two key sets gives the same pair of results.\<close>

lemma diffStringSet_enum:
  assumes "distinct ks" "set ks = set new" "distinct js" "set js = set old"
  shows "diffStringSet old new =
         (sort (filter (\<lambda>item. item \<notin> set old) ks), sort (filter (\<lambda>item. item \<notin> set new) js))"
proof -
  have a: "sort (filter (\<lambda>item. item \<notin> set old) (remdups new))
           = sort (filter (\<lambda>item. item \<notin> set old) ks)"
    by (rule sorted_distinct_set_unique) (use assms in auto)
  have b: "sort (filter (\<lambda>item. item \<notin> set new) (remdups old))
           = sort (filter (\<lambda>item. item \<notin> set new) js)"
    by (rule sorted_distinct_set_unique) (use assms in auto)
  show ?thesis
    by (simp add: diffStringSet_def map_keys_def Let_def a b)
qed

text \<open>
  Claim C6. For all string collections \<open>A\<close> (old) and \<open>B\<close> (new), \<open>diffStringSet A B\<close>
  returns \<open>(added, removed)\<close> with \<open>added = B - A\<close> and \<open>removed = A - B\<close> as sets, both
  sorted ascending and without duplicates, and \<open>(A - removed) \<union> added = B\<close> as sets.
\<close>

theorem diffStringSet_correct:
  "set (fst (diffStringSet A B)) = set B - set A
   \<and> set (snd (diffStringSet A B)) = set A - set B
   \<and> sorted (fst (diffStringSet A B)) \<and> sorted (snd (diffStringSet A B))
   \<and> distinct (fst (diffStringSet A B)) \<and> distinct (snd (diffStringSet A B))
   \<and> (set A - set (snd (diffStringSet A B))) \<union> set (fst (diffStringSet A B)) = set B"
proof -
  have "(set A - (set A - set B)) \<union> (set B - set A) = set B"
    by blast
  then show ?thesis
    by (simp add: diffStringSet_fst_set diffStringSet_snd_set diffStringSet_sorted
        diffStringSet_distinct)
qed

theorem diffStringSet_correct_witness:
  "diffStringSet [''bug'', ''ui'', ''bug''] [''ui'', ''docs'', ''api''] = ([''api'', ''docs''], [''bug''])
   \<and> set [''ui'', ''docs'', ''api''] - set [''bug'', ''ui'', ''bug''] = set [''api'', ''docs'']"
proof -
  have e: "diffStringSet [''bug'', ''ui'', ''bug''] [''ui'', ''docs'', ''api''] = ([''api'', ''docs''], [''bug''])"
    by code_simp
  show ?thesis
    using diffStringSet_correct[of "[''bug'', ''ui'', ''bug'']" "[''ui'', ''docs'', ''api'']"]
    by (simp only: e fst_conv snd_conv simp_thms)
qed

section \<open>Properties of the change set\<close>

lemma diffIssue_fields:
  "chTitle (diffIssue original local) = (if Title original \<noteq> Title local then Some (Title local) else None)"
  "chBody (diffIssue original local) = (if Body original \<noteq> Body local then Some (Body local) else None)"
  "chMilestone (diffIssue original local)
     = (if Milestone original \<noteq> Milestone local then Some (Milestone local) else None)"
  "AddLabels (diffIssue original local) = fst (diffStringSet (Labels original) (Labels local))"
  "RemoveLabels (diffIssue original local) = snd (diffStringSet (Labels original) (Labels local))"
  "AddAssignees (diffIssue original local) = fst (diffStringSet (Assignees original) (Assignees local))"
  "RemoveAssignees (diffIssue original local) = snd (diffStringSet (Assignees original) (Assignees local))"
  by (simp_all add: diffIssue_def emptyChange_def Let_def)

lemma nonempty_iff_set: "length xs > 0 \<longleftrightarrow> set xs \<noteq> {}"
  by simp

lemma set_changed_iff:
  "(set new - set old \<noteq> {} \<or> set old - set new \<noteq> {}) \<longleftrightarrow> set old \<noteq> set new"
  by blast

text \<open>
  Claim C10. For every change set produced by \<open>diffIssue\<close>, \<open>hasEdits\<close> is true exactly
  when the title, body or milestone changed or a label or assignee was added or removed;
  projects, issue type, state transition and state reason have no influence on
  \<open>hasEdits\<close>, whatever their values.
\<close>

theorem hasEdits_diffIssue:
  "(hasEdits (diffIssue original local) \<longleftrightarrow>
      Title original \<noteq> Title local \<or> Body original \<noteq> Body local
      \<or> Milestone original \<noteq> Milestone local
      \<or> set (Labels local) - set (Labels original) \<noteq> {}
      \<or> set (Labels original) - set (Labels local) \<noteq> {}
      \<or> set (Assignees local) - set (Assignees original) \<noteq> {}
      \<or> set (Assignees original) - set (Assignees local) \<noteq> {})
   \<and> hasEdits (change\<lparr>AddProjects := ap, RemoveProjects := rp, chIssueType := it,
                       StateTransition := st, chStateReason := sr\<rparr>) = hasEdits change"
proof -
  have "hasEdits (diffIssue original local) \<longleftrightarrow>
      Title original \<noteq> Title local \<or> Body original \<noteq> Body local
      \<or> Milestone original \<noteq> Milestone local
      \<or> set (Labels local) - set (Labels original) \<noteq> {}
      \<or> set (Labels original) - set (Labels local) \<noteq> {}
      \<or> set (Assignees local) - set (Assignees original) \<noteq> {}
      \<or> set (Assignees original) - set (Assignees local) \<noteq> {}"
    unfolding hasEdits_def diffIssue_fields nonempty_iff_set
      diffStringSet_fst_set diffStringSet_snd_set
    by simp
  moreover have "hasEdits (change\<lparr>AddProjects := ap, RemoveProjects := rp, chIssueType := it,
                       StateTransition := st, chStateReason := sr\<rparr>) = hasEdits change"
    by (simp add: hasEdits_def)
  ultimately show ?thesis by simp
qed

theorem hasEdits_diffIssue_witness:
  "hasEdits (diffIssue issue7 (issue7\<lparr>Projects := [''p2''], IssueType := ''Bug'',
       State := ''closed'', StateReason := Some ''completed''\<rparr>)) = False
   \<and> hasEdits (diffIssue issue7 (issue7\<lparr>Labels := [''bug'', ''ui'']\<rparr>)) = True"
  using hasEdits_diffIssue[of issue7 "issue7\<lparr>Projects := [''p2''], IssueType := ''Bug'',
       State := ''closed'', StateReason := Some ''completed''\<rparr>"]
    hasEdits_diffIssue[of issue7 "issue7\<lparr>Labels := [''bug'', ''ui'']\<rparr>"]
  by (simp add: issue7_def)

section \<open>Properties of the line diff\<close>

declare backtrack.simps [simp del]

lemma backtrack_old_side:
  "i \<le> length oldLines \<Longrightarrow>
   old_side (rev (backtrack lcs oldLines newLines i j ops)) = take i oldLines @ old_side (rev ops)"
proof (induction lcs oldLines newLines i j ops rule: backtrack.induct)
  case (1 lcs oldLines newLines i j ops)
  show ?case
  proof (cases "i > 0 \<or> j > 0")
    case False
    then show ?thesis by (subst backtrack.simps) simp
  next
    case True
    have tk: "i > 0 \<Longrightarrow> take i oldLines = take (i - 1) oldLines @ [oldLines ! (i - 1)]"
      using "1.prems" by (cases i) (simp_all add: take_Suc_conv_app_nth)
    show ?thesis
      using True "1.IH" "1.prems" tk
      by (subst backtrack.simps) (auto simp: old_side_def)
  qed
qed

lemma backtrack_new_side:
  "j \<le> length newLines \<Longrightarrow>
   new_side (rev (backtrack lcs oldLines newLines i j ops)) = take j newLines @ new_side (rev ops)"
proof (induction lcs oldLines newLines i j ops rule: backtrack.induct)
  case (1 lcs oldLines newLines i j ops)
  show ?case
  proof (cases "i > 0 \<or> j > 0")
    case False
    then show ?thesis by (subst backtrack.simps) simp
  next
    case True
    have tk: "j > 0 \<Longrightarrow> take j newLines = take (j - 1) newLines @ [newLines ! (j - 1)]"
      using "1.prems" by (cases j) (simp_all add: take_Suc_conv_app_nth)
    show ?thesis
      using True "1.IH" "1.prems" tk
      by (subst backtrack.simps) (auto simp: new_side_def)
  qed
qed

lemma Split_nl_nonempty: "Split_nl s \<noteq> []"
  by (induction s) (auto split: list.splits)

lemma join_Split_nl: "join_nl (Split_nl s) = s"
proof (induction s)
  case Nil
  then show ?case by simp
next
  case (Cons c cs)
  obtain l ls where sp: "Split_nl cs = l # ls"
    using Split_nl_nonempty[of cs] by (cases "Split_nl cs") auto
  show ?case
    using Cons sp by (cases ls) auto
qed

lemma join_splitLines: "join_nl (splitLines text) = TrimSuffix text [CHR 0x0A]"
  by (simp add: splitLines_def join_Split_nl TrimSuffix_def)

lemma computeDiff_sides:
  "old_side (computeDiff oldLines newLines) = oldLines"
  "new_side (computeDiff oldLines newLines) = newLines"
  by (simp_all add: computeDiff_def backtrack_old_side backtrack_new_side
      old_side_def[of "[]"] new_side_def[of "[]"])

text \<open>
  Claim C4. For all texts \<open>X\<close> (old) and \<open>Y\<close> (new), the texts of the equal and delete
  operations of \<open>computeDiff\<close> over their line splits are, in order, the lines of \<open>X\<close>,
  and the texts of the equal and insert operations are the lines of \<open>Y\<close>; joining the
  lines of a text with newlines gives the text back up to one trailing newline.
\<close>

theorem computeDiff_reconstructs:
  "old_side (computeDiff (splitLines X) (splitLines Y)) = splitLines X
   \<and> new_side (computeDiff (splitLines X) (splitLines Y)) = splitLines Y
   \<and> join_nl (splitLines X) = TrimSuffix X [CHR 0x0A]
   \<and> join_nl (splitLines Y) = TrimSuffix Y [CHR 0x0A]"
  by (simp add: computeDiff_sides join_splitLines)

theorem computeDiff_reconstructs_witness:
  "old_side (computeDiff (splitLines text_old) (splitLines text_new)) = [''a'', ''b'', ''c'']
   \<and> new_side (computeDiff (splitLines text_old) (splitLines text_new)) = [''a'', ''x'', ''c'', ''d'']"
proof -
  have o: "splitLines text_old = [''a'', ''b'', ''c'']"
    by (simp add: splitLines_def text_old_def TrimSuffix_def suffix_def)
  have n: "splitLines text_new = [''a'', ''x'', ''c'', ''d'']"
    by (simp add: splitLines_def text_new_def TrimSuffix_def suffix_def)
  show ?thesis
    using computeDiff_reconstructs[of text_old text_new] by (simp only: o n)
qed

section \<open>Optimality of the line diff\<close>

subsection \<open>The recurrence computes the length of a longest common subsequence\<close>

lemma subseq_snoc:
  "subseq zs (ys @ [y]) \<longleftrightarrow> subseq zs ys \<or> (\<exists>z1. zs = z1 @ [y] \<and> subseq z1 ys)"
proof
  assume "subseq zs (ys @ [y])"
  then obtain z1 z2 where z: "zs = z1 @ z2" "subseq z1 ys" "subseq z2 [y]"
    by (auto simp: subseq_append_iff)
  from z(3) have "z2 = [] \<or> z2 = [y]"
    by (cases z2) (auto split: if_splits)
  then show "subseq zs ys \<or> (\<exists>z1. zs = z1 @ [y] \<and> subseq z1 ys)"
    using z by auto
next
  assume "subseq zs ys \<or> (\<exists>z1. zs = z1 @ [y] \<and> subseq z1 ys)"
  then show "subseq zs (ys @ [y])"
    by (auto intro: subseq_rev_drop_many)
qed

lemma subseq_snoc_butlast:
  "subseq (zs @ [z]) (ys @ [y]) \<Longrightarrow> subseq zs ys"
  by (auto simp: subseq_snoc[of "zs @ [z]"] dest: subseq_rev_drop_many
      intro: subseq_order.order_trans[of zs "zs @ [z]" ys] prefix_imp_subseq)

lemma subseq_snoc_neq:
  "subseq (zs @ [z]) (ys @ [y]) \<Longrightarrow> z \<noteq> y \<Longrightarrow> subseq (zs @ [z]) ys"
  by (auto simp: subseq_snoc[of "zs @ [z]"])

lemma lcsAt_0 [simp]: "lcsAt xs ys 0 j = 0" "lcsAt xs ys i 0 = 0"
  by (cases j; simp) (cases i; simp)

lemma isLcsLength_Nil: "isLcsLength [] ys 0" "isLcsLength xs [] 0"
  by (auto simp: isLcsLength_def commonSubseq_def)

lemma isLcsLength_snoc_eq:
  assumes "isLcsLength xs ys n"
  shows "isLcsLength (xs @ [x]) (ys @ [x]) (Suc n)"
proof -
  obtain w where w: "subseq w xs" "subseq w ys" "length w = n"
    using assms by (auto simp: isLcsLength_def commonSubseq_def)
  have ub: "\<And>zs. subseq zs xs \<Longrightarrow> subseq zs ys \<Longrightarrow> length zs \<le> n"
    using assms by (auto simp: isLcsLength_def commonSubseq_def)
  have "commonSubseq (w @ [x]) (xs @ [x]) (ys @ [x])"
    using w by (simp add: commonSubseq_def)
  moreover have "length zs \<le> Suc n" if "commonSubseq zs (xs @ [x]) (ys @ [x])" for zs
  proof (cases zs rule: rev_cases)
    case Nil
    then show ?thesis by simp
  next
    case (snoc zs' z)
    have "subseq zs' xs" "subseq zs' ys"
      using that snoc by (auto simp: commonSubseq_def dest: subseq_snoc_butlast)
    then show ?thesis using ub[of zs'] snoc by simp
  qed
  ultimately show ?thesis
    using w(3) by (auto simp: isLcsLength_def)
qed

lemma isLcsLength_snoc_neq:
  assumes a: "isLcsLength xs (ys @ [y]) p" and b: "isLcsLength (xs @ [x]) ys q" and ne: "x \<noteq> y"
  shows "isLcsLength (xs @ [x]) (ys @ [y]) (max p q)"
proof -
  obtain wa where wa: "subseq wa xs" "subseq wa (ys @ [y])" "length wa = p"
    using a by (auto simp: isLcsLength_def commonSubseq_def)
  obtain wb where wb: "subseq wb (xs @ [x])" "subseq wb ys" "length wb = q"
    using b by (auto simp: isLcsLength_def commonSubseq_def)
  have uba: "\<And>zs. subseq zs xs \<Longrightarrow> subseq zs (ys @ [y]) \<Longrightarrow> length zs \<le> p"
    using a by (auto simp: isLcsLength_def commonSubseq_def)
  have ubb: "\<And>zs. subseq zs (xs @ [x]) \<Longrightarrow> subseq zs ys \<Longrightarrow> length zs \<le> q"
    using b by (auto simp: isLcsLength_def commonSubseq_def)
  have ca: "commonSubseq wa (xs @ [x]) (ys @ [y])"
    using wa by (auto simp: commonSubseq_def intro: subseq_rev_drop_many)
  have cb: "commonSubseq wb (xs @ [x]) (ys @ [y])"
    using wb by (auto simp: commonSubseq_def intro: subseq_rev_drop_many)
  have ex: "\<exists>zs. commonSubseq zs (xs @ [x]) (ys @ [y]) \<and> length zs = max p q"
  proof (cases "p \<le> q")
    case True
    then show ?thesis using cb wb(3) by (auto simp: max_def)
  next
    case False
    then show ?thesis using ca wa(3) by (auto simp: max_def)
  qed
  have "length zs \<le> max p q" if c: "commonSubseq zs (xs @ [x]) (ys @ [y])" for zs
  proof (cases zs rule: rev_cases)
    case Nil
    then show ?thesis by simp
  next
    case (snoc zs' z)
    show ?thesis
    proof (cases "z = x")
      case True
      then have "z \<noteq> y" using ne by simp
      then have "subseq zs ys"
        using c snoc by (auto simp: commonSubseq_def dest: subseq_snoc_neq)
      then have "length zs \<le> q" using ubb[of zs] c by (simp add: commonSubseq_def)
      then show ?thesis by simp
    next
      case False
      then have "subseq zs xs"
        using c snoc by (auto simp: commonSubseq_def dest: subseq_snoc_neq)
      then have "length zs \<le> p" using uba[of zs] c by (simp add: commonSubseq_def)
      then show ?thesis by simp
    qed
  qed
  with ex show ?thesis by (auto simp: isLcsLength_def)
qed

lemma lcsAt_correct:
  "i \<le> length xs \<Longrightarrow> j \<le> length ys \<Longrightarrow> isLcsLength (take i xs) (take j ys) (lcsAt xs ys i j)"
proof (induction xs ys i j rule: lcsAt.induct)
  case (1 xs ys i j)
  have ti: "take (Suc i) xs = take i xs @ [xs ! i]" and tj: "take (Suc j) ys = take j ys @ [ys ! j]"
    using "1.prems" by (simp_all add: take_Suc_conv_app_nth)
  show ?case
  proof (cases "xs ! i = ys ! j")
    case True
    then show ?thesis
      using "1.IH"(1) "1.prems" isLcsLength_snoc_eq[of "take i xs" "take j ys" _ "ys ! j"]
      by (simp add: ti tj)
  next
    case False
    have a: "isLcsLength (take i xs) (take j ys @ [ys ! j]) (lcsAt xs ys i (Suc j))"
      using "1.IH"(2)[OF False] "1.prems" by (simp add: tj)
    have b: "isLcsLength (take i xs @ [xs ! i]) (take j ys) (lcsAt xs ys (Suc i) j)"
      using "1.IH"(3)[OF False] "1.prems" by (simp add: ti)
    show ?thesis
      using isLcsLength_snoc_neq[OF a b False] False by (simp add: ti tj)
  qed
qed (simp_all add: isLcsLength_Nil)

subsection \<open>The table holds the recurrence\<close>

lemma filledToD:
  assumes "filledTo xs ys t i j"
  shows "length t = length xs + 1"
    and "\<And>r. r \<le> length xs \<Longrightarrow> length (t ! r) = length ys + 1"
    and "\<And>r c. r \<le> length xs \<Longrightarrow> c \<le> length ys \<Longrightarrow>
           r < i \<or> (r = i \<and> c \<le> j) \<or> r = 0 \<or> c = 0 \<Longrightarrow> t ! r ! c = lcsAt xs ys r c"
  using assms unfolding filledTo_def by blast+

lemma filledTo_init:
  "filledTo xs ys (replicate (length xs + 1) (replicate (length ys + 1) 0)) 0 (length ys)"
proof -
  have cell: "replicate (length xs + 1) (replicate (length ys + 1) (0::nat)) ! r ! c = 0"
    if "r \<le> length xs" "c \<le> length ys" for r c
    using that by (simp del: replicate.simps add: nth_replicate)
  have row: "length (replicate (length xs + 1) (replicate (length ys + 1) (0::nat)) ! r) = length ys + 1"
    if "r \<le> length xs" for r
    using that by (simp del: replicate.simps add: nth_replicate)
  show ?thesis
    unfolding filledTo_def
  proof (intro conjI allI impI)
    show "length (replicate (length xs + 1) (replicate (length ys + 1) (0::nat))) = length xs + 1"
      by simp
  next
    fix r assume "r \<le> length xs"
    then show "length (replicate (length xs + 1) (replicate (length ys + 1) (0::nat)) ! r) = length ys + 1"
      by (rule row)
  next
    fix r c
    assume a: "r \<le> length xs \<and> c \<le> length ys \<and> (r < 0 \<or> r = 0 \<and> c \<le> length ys \<or> r = 0 \<or> c = 0)"
    then have "r = 0 \<or> c = 0" by auto
    then have "lcsAt xs ys r c = 0" by auto
    then show "replicate (length xs + 1) (replicate (length ys + 1) 0) ! r ! c = lcsAt xs ys r c"
      using cell[of r c] a by simp
  qed
qed

lemma filledTo_next_row:
  assumes "filledTo xs ys t i (length ys)"
  shows "filledTo xs ys t (Suc i) 0"
  unfolding filledTo_def
  using filledToD[OF assms] by (auto simp: less_Suc_eq)

lemma lcsAt_step:
  "i > 0 \<Longrightarrow> j > 0 \<Longrightarrow>
   lcsAt xs ys i j =
     (if xs ! (i - 1) = ys ! (j - 1) then lcsAt xs ys (i - 1) (j - 1) + 1
      else if lcsAt xs ys (i - 1) j \<ge> lcsAt xs ys i (j - 1) then lcsAt xs ys (i - 1) j
      else lcsAt xs ys i (j - 1))"
  by (cases i; cases j) (auto simp: max_def)

lemma set_cell_value:
  assumes f: "filledTo xs ys t i (j - 1)" and ij: "0 < i" "i \<le> length xs" "0 < j" "j \<le> length ys"
  shows "\<exists>v. set_cell xs ys i j t = t[i := (t ! i)[j := v]] \<and> v = lcsAt xs ys i j"
proof -
  have r1: "t ! (i - 1) ! (j - 1) = lcsAt xs ys (i - 1) (j - 1)"
    and r2: "t ! (i - 1) ! j = lcsAt xs ys (i - 1) j"
    and r3: "t ! i ! (j - 1) = lcsAt xs ys i (j - 1)"
    using filledToD(3)[OF f, of "i - 1" "j - 1"] filledToD(3)[OF f, of "i - 1" j]
      filledToD(3)[OF f, of i "j - 1"] ij
    by auto
  show ?thesis
    unfolding set_cell_def r1 r2 r3 lcsAt_step[OF ij(1) ij(3), of xs ys]
    by auto
qed

lemma filledTo_set_cell:
  assumes f: "filledTo xs ys t i (j - 1)" and ij: "0 < i" "i \<le> length xs" "0 < j" "j \<le> length ys"
  shows "filledTo xs ys (set_cell xs ys i j t) i j"
proof -
  obtain v where sc: "set_cell xs ys i j t = t[i := (t ! i)[j := v]]" and v: "v = lcsAt xs ys i j"
    using set_cell_value[OF assms] by blast
  note len = filledToD(1)[OF f] and rows = filledToD(2)[OF f] and old = filledToD(3)[OF f]
  have cell: "t[i := (t ! i)[j := v]] ! r ! c = (if r = i \<and> c = j then v else t ! r ! c)"
    if "r \<le> length xs" "c \<le> length ys" for r c
    using that len rows[of i] ij by (auto simp: nth_list_update)
  have rowlen: "length (t[i := (t ! i)[j := v]] ! r) = length ys + 1" if "r \<le> length xs" for r
    using that len rows[of r] rows[of i] ij by (auto simp: nth_list_update)
  show ?thesis
    unfolding filledTo_def sc
  proof (intro conjI allI impI)
    show "length (t[i := (t ! i)[j := v]]) = length xs + 1" using len by simp
  next
    fix r assume "r \<le> length xs"
    then show "length (t[i := (t ! i)[j := v]] ! r) = length ys + 1" by (rule rowlen)
  next
    fix r c
    assume a: "r \<le> length xs \<and> c \<le> length ys \<and> (r < i \<or> r = i \<and> c \<le> j \<or> r = 0 \<or> c = 0)"
    show "t[i := (t ! i)[j := v]] ! r ! c = lcsAt xs ys r c"
    proof (cases "r = i \<and> c = j")
      case True
      then show ?thesis using cell[of r c] a v by simp
    next
      case False
      then have "r < i \<or> (r = i \<and> c \<le> j - 1) \<or> r = 0 \<or> c = 0"
        using a by auto
      then show ?thesis using cell[of r c] a False old[of r c] by simp
    qed
  qed
qed

lemma filledTo_row:
  assumes "0 < i" "i \<le> length xs" "k \<le> length ys" "filledTo xs ys t i 0"
  shows "filledTo xs ys (fold (\<lambda>j lcs. set_cell xs ys i j lcs) [1..<k + 1] t) i k"
  using assms(3)
proof (induction k)
  case 0
  then show ?case using assms(4) by simp
next
  case (Suc k)
  have ih: "filledTo xs ys (fold (\<lambda>j lcs. set_cell xs ys i j lcs) [1..<k + 1] t) i k"
    using Suc by simp
  have "[1..<Suc k + 1] = [1..<k + 1] @ [Suc k]" by simp
  then show ?case
    using filledTo_set_cell[of xs ys _ i "Suc k", OF _ assms(1,2)] ih Suc.prems
    by (simp del: upt_Suc)
qed

lemma filledTo_rows:
  assumes "k \<le> length xs"
  shows "filledTo xs ys
           (fold (\<lambda>i lcs. fold (\<lambda>j lcs. set_cell xs ys i j lcs) [1..<length ys + 1] lcs) [1..<k + 1]
              (replicate (length xs + 1) (replicate (length ys + 1) 0)))
           k (length ys)"
  using assms
proof (induction k)
  case 0
  then show ?case using filledTo_init by simp
next
  case (Suc k)
  let ?t = "fold (\<lambda>i lcs. fold (\<lambda>j lcs. set_cell xs ys i j lcs) [1..<length ys + 1] lcs) [1..<k + 1]
              (replicate (length xs + 1) (replicate (length ys + 1) 0))"
  have "filledTo xs ys ?t (Suc k) 0"
    using Suc by (intro filledTo_next_row) simp
  then have "filledTo xs ys (fold (\<lambda>j lcs. set_cell xs ys (Suc k) j lcs) [1..<length ys + 1] ?t)
               (Suc k) (length ys)"
    using Suc.prems by (intro filledTo_row) simp_all
  moreover have "[1..<Suc k + 1] = [1..<k + 1] @ [Suc k]" by simp
  ultimately show ?case by (simp del: upt_Suc)
qed

lemma lcs_table_filled: "filledTo xs ys (lcs_table xs ys) (length xs) (length ys)"
  unfolding lcs_table_def Let_def by (rule filledTo_rows) simp

lemma lcs_table_correct:
  assumes "i \<le> length xs" "j \<le> length ys"
  shows "lcs_table xs ys ! i ! j = lcsAt xs ys i j"
proof -
  from assms have "i < length xs \<or> (i = length xs \<and> j \<le> length ys) \<or> i = 0 \<or> j = 0"
    by auto
  then show ?thesis
    by (rule filledToD(3)[OF lcs_table_filled assms])
qed

subsection \<open>The backtracking follows the tie-break of the specification\<close>

declare preferInsertScript.simps [simp del]

lemma backtrack_is_script:
  "(\<forall>r c. r \<le> length xs \<and> c \<le> length ys \<longrightarrow> t ! r ! c = lcsAt xs ys r c) \<Longrightarrow>
   i \<le> length xs \<Longrightarrow> j \<le> length ys \<Longrightarrow>
   rev (backtrack t xs ys i j acc) = preferInsertScript xs ys i j @ rev acc"
proof (induction t xs ys i j acc rule: backtrack.induct)
  case (1 lcs oldLines newLines i j ops)
  note tb = "1.prems"(1) and i = "1.prems"(2) and j = "1.prems"(3)
  show ?case
  proof (cases "i > 0 \<or> j > 0")
    case False
    then show ?thesis
      by (subst backtrack.simps, subst preferInsertScript.simps) simp
  next
    case pos: True
    show ?thesis
    proof (cases "i > 0 \<and> j > 0 \<and> oldLines ! (i - 1) = newLines ! (j - 1)")
      case eq: True
      have "rev (backtrack lcs oldLines newLines (i - 1) (j - 1)
                  (ops @ [\<lparr>opType = diffEqual, opText = oldLines ! (i - 1)\<rparr>]))
            = preferInsertScript oldLines newLines (i - 1) (j - 1)
              @ rev (ops @ [\<lparr>opType = diffEqual, opText = oldLines ! (i - 1)\<rparr>])"
        using "1.IH"(1)[OF pos eq tb] i j by simp
      then show ?thesis
        using pos eq
        by (subst backtrack.simps, subst preferInsertScript.simps) simp
    next
      case neq: False
      have same: "(j > 0 \<and> (i = 0 \<or> lcs ! i ! (j - 1) \<ge> lcs ! (i - 1) ! j))
                  \<longleftrightarrow> (j > 0 \<and> (i = 0 \<or> lcsAt oldLines newLines i (j - 1) \<ge> lcsAt oldLines newLines (i - 1) j))"
      proof (cases "i = 0 \<or> j = 0")
        case True
        then show ?thesis by auto
      next
        case False
        then have "lcs ! i ! (j - 1) = lcsAt oldLines newLines i (j - 1)"
          "lcs ! (i - 1) ! j = lcsAt oldLines newLines (i - 1) j"
          using tb i j by auto
        then show ?thesis by simp
      qed
      show ?thesis
      proof (cases "j > 0 \<and> (i = 0 \<or> lcs ! i ! (j - 1) \<ge> lcs ! (i - 1) ! j)")
        case ins: True
        have "rev (backtrack lcs oldLines newLines i (j - 1)
                  (ops @ [\<lparr>opType = diffInsert, opText = newLines ! (j - 1)\<rparr>]))
            = preferInsertScript oldLines newLines i (j - 1)
              @ rev (ops @ [\<lparr>opType = diffInsert, opText = newLines ! (j - 1)\<rparr>])"
          using "1.IH"(2)[OF pos neq ins tb] i j by simp
        then show ?thesis
          using pos neq ins same
          by (subst backtrack.simps, subst preferInsertScript.simps) auto
      next
        case del: False
        have "rev (backtrack lcs oldLines newLines (i - 1) j
                  (ops @ [\<lparr>opType = diffDelete, opText = oldLines ! (i - 1)\<rparr>]))
            = preferInsertScript oldLines newLines (i - 1) j
              @ rev (ops @ [\<lparr>opType = diffDelete, opText = oldLines ! (i - 1)\<rparr>])"
          using "1.IH"(3)[OF pos neq del tb] i j by simp
        then show ?thesis
          using pos neq del same
          by (subst backtrack.simps, subst preferInsertScript.simps) auto
      qed
    qed
  qed
qed

lemma computeDiff_is_script:
  "computeDiff xs ys = preferInsertScript xs ys (length xs) (length ys)"
  using backtrack_is_script[of xs ys "lcs_table xs ys" "length xs" "length ys" "[]"]
  by (simp add: computeDiff_def lcs_table_correct)

subsection \<open>The cost of the script\<close>

lemma script_keeps_lcs:
  "length (equalLines (preferInsertScript xs ys i j)) = lcsAt xs ys i j"
proof (induction xs ys i j rule: preferInsertScript.induct)
  case (1 xs ys i j)
  show ?case
  proof (cases "i = 0 \<and> j = 0")
    case True
    then show ?thesis
      by (subst preferInsertScript.simps) (simp add: equalLines_def)
  next
    case nz: False
    show ?thesis
    proof (cases "i > 0 \<and> j > 0 \<and> xs ! (i - 1) = ys ! (j - 1)")
      case eq: True
      then have "lcsAt xs ys i j = lcsAt xs ys (i - 1) (j - 1) + 1"
        by (simp add: lcsAt_step)
      moreover have "preferInsertScript xs ys i j
          = preferInsertScript xs ys (i - 1) (j - 1) @ [\<lparr>opType = diffEqual, opText = xs ! (i - 1)\<rparr>]"
        by (subst preferInsertScript.simps) (use nz eq in auto)
      ultimately show ?thesis
        using "1.IH"(1)[OF nz eq] by (simp add: equalLines_def)
    next
      case neq: False
      show ?thesis
      proof (cases "j > 0 \<and> (i = 0 \<or> lcsAt xs ys i (j - 1) \<ge> lcsAt xs ys (i - 1) j)")
        case ins: True
        have "lcsAt xs ys i j = lcsAt xs ys i (j - 1)"
        proof (cases "i = 0")
          case True
          then show ?thesis by simp
        next
          case False
          then show ?thesis using ins neq by (auto simp: lcsAt_step)
        qed
        moreover have "preferInsertScript xs ys i j
            = preferInsertScript xs ys i (j - 1) @ [\<lparr>opType = diffInsert, opText = ys ! (j - 1)\<rparr>]"
          by (subst preferInsertScript.simps) (use nz neq ins in auto)
        ultimately show ?thesis
          using "1.IH"(2)[OF nz neq ins] by (simp add: equalLines_def)
      next
        case del: False
        have "lcsAt xs ys i j = lcsAt xs ys (i - 1) j"
        proof (cases "j = 0")
          case True
          then show ?thesis by simp
        next
          case False
          then show ?thesis using del neq nz by (auto simp: lcsAt_step)
        qed
        moreover have "preferInsertScript xs ys i j
            = preferInsertScript xs ys (i - 1) j @ [\<lparr>opType = diffDelete, opText = xs ! (i - 1)\<rparr>]"
          by (subst preferInsertScript.simps) (use nz neq del in auto)
        ultimately show ?thesis
          using "1.IH"(3)[OF nz neq del] by (simp add: equalLines_def)
      qed
    qed
  qed
qed

lemma script_lengths:
  "length (old_side script) + length (new_side script)
     = cost script + 2 * length (equalLines script)"
proof (induction script)
  case Nil
  then show ?case by (simp add: old_side_def new_side_def cost_def equalLines_def)
next
  case (Cons op script)
  then show ?case
    by (cases "opType op") (simp_all add: old_side_def new_side_def cost_def equalLines_def)
qed

lemma equalLines_common:
  "commonSubseq (equalLines script) (old_side script) (new_side script)"
  by (induction script)
     (auto simp: commonSubseq_def equalLines_def old_side_def new_side_def)

lemma isLcsLength_unique: "isLcsLength xs ys p \<Longrightarrow> isLcsLength xs ys q \<Longrightarrow> p = q"
  by (auto simp: isLcsLength_def intro: le_antisym)

lemma isLcsLength_le:
  "isLcsLength xs ys n \<Longrightarrow> n \<le> length xs \<and> n \<le> length ys"
  by (auto simp: isLcsLength_def commonSubseq_def dest: list_emb_length)

lemma lcsAt_full: "isLcsLength xs ys (lcsAt xs ys (length xs) (length ys))"
  using lcsAt_correct[of "length xs" xs "length ys" ys] by simp

lemma computeDiff_cost:
  "cost (computeDiff xs ys) + 2 * lcsAt xs ys (length xs) (length ys) = length xs + length ys"
  using script_lengths[of "computeDiff xs ys"]
  by (simp add: computeDiff_sides) (simp add: computeDiff_is_script script_keeps_lcs)

lemma script_cost_lower:
  assumes "old_side script = xs" "new_side script = ys"
  shows "length xs + length ys \<le> cost script + 2 * lcsAt xs ys (length xs) (length ys)"
proof -
  have "commonSubseq (equalLines script) xs ys"
    using equalLines_common[of script] assms by simp
  then have "length (equalLines script) \<le> lcsAt xs ys (length xs) (length ys)"
    using lcsAt_full[of xs ys] by (auto simp: isLcsLength_def)
  then show ?thesis
    using script_lengths[of script] assms by simp
qed

text \<open>
  Claim C5. For every pair of line sequences, the script of \<open>computeDiff\<close> is optimal:
  with \<open>L\<close> the length of a longest common subsequence, its number of insert and delete
  operations is \<open>(len(old) - L) + (len(new) - L)\<close>, and no script that reconstructs both
  sequences has fewer. The script is the one selected by the tie-break that consumes
  the new line (an insertion) during backtracking whenever dropping either line keeps
  the optimum.
\<close>

theorem computeDiff_optimal:
  "(\<exists>L. isLcsLength oldLines newLines L)
   \<and> (\<forall>L. isLcsLength oldLines newLines L \<longrightarrow>
         cost (computeDiff oldLines newLines) = (length oldLines - L) + (length newLines - L))
   \<and> (\<forall>script. old_side script = oldLines \<and> new_side script = newLines \<longrightarrow>
         cost (computeDiff oldLines newLines) \<le> cost script)
   \<and> computeDiff oldLines newLines
       = preferInsertScript oldLines newLines (length oldLines) (length newLines)"
proof (intro conjI allI impI)
  show "\<exists>L. isLcsLength oldLines newLines L"
    using lcsAt_full by blast
next
  fix L assume L: "isLcsLength oldLines newLines L"
  then have eq: "L = lcsAt oldLines newLines (length oldLines) (length newLines)"
    using lcsAt_full isLcsLength_unique by blast
  show "cost (computeDiff oldLines newLines) = (length oldLines - L) + (length newLines - L)"
    using computeDiff_cost[of oldLines newLines] isLcsLength_le[OF L] eq by simp
next
  fix script assume "old_side script = oldLines \<and> new_side script = newLines"
  then show "cost (computeDiff oldLines newLines) \<le> cost script"
    using script_cost_lower[of script oldLines newLines] computeDiff_cost[of oldLines newLines]
    by simp
next
  show "computeDiff oldLines newLines
       = preferInsertScript oldLines newLines (length oldLines) (length newLines)"
    by (rule computeDiff_is_script)
qed

lemma computeDiff_abc:
  "computeDiff [''a'', ''b'', ''c''] [''a'', ''x'', ''c'', ''d''] =
     [\<lparr>opType = diffEqual, opText = ''a''\<rparr>, \<lparr>opType = diffDelete, opText = ''b''\<rparr>,
      \<lparr>opType = diffInsert, opText = ''x''\<rparr>, \<lparr>opType = diffEqual, opText = ''c''\<rparr>,
      \<lparr>opType = diffInsert, opText = ''d''\<rparr>]"
  by code_simp

theorem computeDiff_optimal_witness:
  "isLcsLength [''a'', ''b'', ''c''] [''a'', ''x'', ''c'', ''d''] 2
   \<and> cost (computeDiff [''a'', ''b'', ''c''] [''a'', ''x'', ''c'', ''d'']) = 3
   \<and> old_side replaceAll = [''a'', ''b'', ''c''] \<and> new_side replaceAll = [''a'', ''x'', ''c'', ''d'']
   \<and> cost replaceAll = 7
   \<and> cost (computeDiff [''a'', ''b'', ''c''] [''a'', ''x'', ''c'', ''d'']) \<le> cost replaceAll
   \<and> preferInsertScript [''a'', ''b'', ''c''] [''a'', ''x'', ''c'', ''d'']
        (length [''a'', ''b'', ''c'']) (length [''a'', ''x'', ''c'', ''d'']) =
     [\<lparr>opType = diffEqual, opText = ''a''\<rparr>, \<lparr>opType = diffDelete, opText = ''b''\<rparr>,
      \<lparr>opType = diffInsert, opText = ''x''\<rparr>, \<lparr>opType = diffEqual, opText = ''c''\<rparr>,
      \<lparr>opType = diffInsert, opText = ''d''\<rparr>]"
proof -
  note t = computeDiff_optimal[of "[''a'', ''b'', ''c'']" "[''a'', ''x'', ''c'', ''d'']"]
  note t1 = t[THEN conjunct1] and t2 = t[THEN conjunct2, THEN conjunct1]
    and t3 = t[THEN conjunct2, THEN conjunct2, THEN conjunct1]
    and t4 = t[THEN conjunct2, THEN conjunct2, THEN conjunct2]
  have c3: "cost (computeDiff [''a'', ''b'', ''c''] [''a'', ''x'', ''c'', ''d'']) = 3"
    by (simp add: computeDiff_abc cost_def)
  have sides: "old_side replaceAll = [''a'', ''b'', ''c'']" "new_side replaceAll = [''a'', ''x'', ''c'', ''d'']"
    "cost replaceAll = 7"
    by (simp_all add: replaceAll_def old_side_def new_side_def cost_def)
  obtain L where L: "isLcsLength [''a'', ''b'', ''c''] [''a'', ''x'', ''c'', ''d''] L"
    using t1 by blast
  have "cost (computeDiff [''a'', ''b'', ''c''] [''a'', ''x'', ''c'', ''d''])
          = (length [''a'', ''b'', ''c''] - L) + (length [''a'', ''x'', ''c'', ''d''] - L)"
    using t2 L by blast
  then have "(3 - L) + (4 - L) = (3::nat)"
    using c3 by simp
  then have "L = 2" by arith
  then have l2: "isLcsLength [''a'', ''b'', ''c''] [''a'', ''x'', ''c'', ''d''] 2"
    using L by simp
  have le: "cost (computeDiff [''a'', ''b'', ''c''] [''a'', ''x'', ''c'', ''d'']) \<le> cost replaceAll"
    using t3 sides by blast
  have sc: "preferInsertScript [''a'', ''b'', ''c''] [''a'', ''x'', ''c'', ''d'']
        (length [''a'', ''b'', ''c'']) (length [''a'', ''x'', ''c'', ''d'']) =
     [\<lparr>opType = diffEqual, opText = ''a''\<rparr>, \<lparr>opType = diffDelete, opText = ''b''\<rparr>,
      \<lparr>opType = diffInsert, opText = ''x''\<rparr>, \<lparr>opType = diffEqual, opText = ''c''\<rparr>,
      \<lparr>opType = diffInsert, opText = ''d''\<rparr>]"
    using t4 computeDiff_abc by (simp only:)
  show ?thesis using l2 c3 sides le sc by (simp only: simp_thms)
qed

section \<open>Properties of the pending comments\<close>

lemma scanEntry_body:
  "\<forall>n c. comments n = Some c \<longrightarrow> cBody c \<noteq> [] \<Longrightarrow>
   scanEntry fs d comments entry n = Some c \<Longrightarrow> cBody c \<noteq> []"
  by (auto simp: scanEntry_def Let_def split: if_splits option.splits sum.splits)

lemma foldl_scanEntry_body:
  "\<forall>n c. comments n = Some c \<longrightarrow> cBody c \<noteq> [] \<Longrightarrow>
   foldl (scanEntry fs d) comments entries n = Some c \<Longrightarrow> cBody c \<noteq> []"
proof (induction entries arbitrary: comments n c)
  case Nil
  then show ?case by simp
next
  case (Cons e es)
  have "\<forall>n c. scanEntry fs d comments e n = Some c \<longrightarrow> cBody c \<noteq> []"
    using scanEntry_body[OF Cons.prems(1)] by blast
  from Cons.IH[OF this] Cons.prems(2) show ?case by simp
qed

lemma scanDir_body:
  "\<forall>n c. comments n = Some c \<longrightarrow> cBody c \<noteq> [] \<Longrightarrow>
   scanDir fs comments d n = Some c \<Longrightarrow> cBody c \<noteq> []"
  by (auto simp: scanDir_def split: sum.splits dest: foldl_scanEntry_body)

lemma loadAllPendingComments_nonempty:
  "loadAllPendingComments fs p n = Some c \<Longrightarrow> cBody c \<noteq> []"
proof -
  assume a: "loadAllPendingComments fs p n = Some c"
  have 0: "\<forall>n c. (Map.empty :: string \<rightharpoonup> PendingComment) n = Some c \<longrightarrow> cBody c \<noteq> []" by simp
  have 1: "\<forall>n c. scanDir fs Map.empty (OpenDir p) n = Some c \<longrightarrow> cBody c \<noteq> []"
    using scanDir_body[OF 0] by blast
  show ?thesis
    using scanDir_body[OF 1] a by (simp add: loadAllPendingComments_def)
qed

lemma TrimSpace_blank: "TrimSpace blank_content = []"
  by (simp add: TrimSpace_def blank_content_def isSpace_def)

text \<open>
  Claim C9. A comment file whose content is empty or white space only counts as no
  pending comment, for \<open>findPendingComment\<close> as for \<open>loadAllPendingComments\<close>. On the
  store \<open>blank_fs\<close> the bulk scan reports nothing for issue 42, while the lookup reports
  a pending comment with an empty body.
\<close>

theorem findPendingComment_blank:
  "findPendingComment blank_fs ''.issues/open'' ''42''
     = (\<lparr> IssueNumber = ''42'', cBody = [], cPath = ''.issues/open/42.comment.md'' \<rparr>, True)
   \<and> loadAllPendingComments blank_fs paths0 ''42'' = None"
  by (simp add: findPendingComment_def ReadFile_def lookup_entry_def blank_fs_def TrimSpace_blank Join_def
      loadAllPendingComments_def scanDir_def ReadDir_def scanEntry_def IsDir_def HasSuffix_def paths0_def
      commentFilePattern_def isAlnum_def isDigit_def suffix_def)

section \<open>Properties of the identifier remapping\<close>

declare replaceLocalRefs.simps(2) [simp del]

lemma replaceLocalRefs_split:
  "replaceLocalRefs m s ch = (remapText m s, ch \<or> textHit m s)"
proof (induction m s ch rule: replaceLocalRefs.induct)
  case (1 mapping changed)
  then show ?case by (simp add: remapText_def textHit_def)
next
  case (2 mapping c cs changed)
  show ?case
    unfolding remapText_def textHit_def
    apply (subst replaceLocalRefs.simps(2))
    apply (subst replaceLocalRefs.simps(2))
    apply (subst replaceLocalRefs.simps(2))
    using 2
    by (auto simp: Let_def remapText_def textHit_def split: option.splits)
qed

lemma remapText_Nil [simp]: "remapText m [] = []" "textHit m [] = False"
  by (simp_all add: remapText_def textHit_def)

lemma remapText_Cons:
  "remapText m (c # cs) =
     (if c = CHR ''#'' \<and> cs \<noteq> [] \<and> hd cs = CHR ''T'' \<and> takeWhile isAlnum (tl cs) \<noteq> []
      then (case m (CHR ''T'' # takeWhile isAlnum (tl cs)) of
              Some real \<Rightarrow> CHR ''#'' # real @ remapText m (dropWhile isAlnum (tl cs))
            | None \<Rightarrow> CHR ''#'' # CHR ''T'' # takeWhile isAlnum (tl cs) @ remapText m (dropWhile isAlnum (tl cs)))
      else c # remapText m cs)"
  unfolding remapText_def
  apply (subst replaceLocalRefs.simps(2))
  by (auto simp: Let_def replaceLocalRefs_split[of m _ True] remapText_def[symmetric] split: option.splits)

lemma textHit_Cons:
  "textHit m (c # cs) =
     (if c = CHR ''#'' \<and> cs \<noteq> [] \<and> hd cs = CHR ''T'' \<and> takeWhile isAlnum (tl cs) \<noteq> []
      then (case m (CHR ''T'' # takeWhile isAlnum (tl cs)) of
              Some real \<Rightarrow> True
            | None \<Rightarrow> textHit m (dropWhile isAlnum (tl cs)))
      else textHit m cs)"
  unfolding textHit_def
  apply (subst replaceLocalRefs.simps(2))
  by (auto simp: Let_def replaceLocalRefs_split[of m _ True] textHit_def[symmetric] split: option.splits)

lemma not_alnum_hash [simp]: "\<not> isAlnum CHR ''#''" "isAlnum CHR ''T''" "\<not> isDigit CHR ''T''"
  by (simp_all add: isAlnum_def isDigit_def less_eq_char_def)

lemma isDigit_isAlnum: "isDigit c \<Longrightarrow> isAlnum c"
  by (simp add: isAlnum_def)

lemma remapText_head:
  "takeWhile isAlnum s = [] \<Longrightarrow> takeWhile isAlnum (remapText m s) = []"
  by (cases s) (auto simp: remapText_Cons split: option.splits if_splits)

lemma remapText_hd:
  "s \<noteq> [] \<Longrightarrow> remapText m s \<noteq> [] \<and> hd (remapText m s) = hd s"
  by (cases s) (auto simp: remapText_Cons split: option.splits)

lemma remapText_copy:
  "list_all (\<lambda>c. c \<noteq> CHR ''#'') xs \<Longrightarrow>
   remapText m (xs @ ys) = xs @ remapText m ys \<and> textHit m (xs @ ys) = textHit m ys"
  by (induction xs) (auto simp: remapText_Cons textHit_Cons)

lemma digits_no_hash: "list_all isDigit v \<Longrightarrow> list_all (\<lambda>c. c \<noteq> CHR ''#'') v"
  by (induction v) (auto simp: isDigit_def less_eq_char_def)

lemma takeWhile_dropWhile_nil: "takeWhile P (dropWhile P xs) = []"
  by (induction xs) auto

lemma takeWhile_nil_dropWhile: "takeWhile P xs = [] \<Longrightarrow> dropWhile P xs = xs"
  by (cases xs) (auto split: if_splits)

lemma takeWhile_run_append:
  assumes "takeWhile P ys = []"
  shows "takeWhile P (takeWhile P xs @ ys) = takeWhile P xs"
    and "dropWhile P (takeWhile P xs @ ys) = ys"
proof -
  have a: "\<And>x. x \<in> set (takeWhile P xs) \<Longrightarrow> P x"
    by (auto dest: set_takeWhileD)
  show "takeWhile P (takeWhile P xs @ ys) = takeWhile P xs"
    using takeWhile_append2[of "takeWhile P xs" P ys] a assms by simp
  show "dropWhile P (takeWhile P xs @ ys) = ys"
    using dropWhile_append2[of "takeWhile P xs" P ys] a takeWhile_nil_dropWhile[OF assms] by simp
qed

lemma isMatch_Cons:
  "isMatch (c # cs) \<longleftrightarrow> c = CHR ''#'' \<and> cs \<noteq> [] \<and> hd cs = CHR ''T'' \<and> takeWhile isAlnum (tl cs) \<noteq> []"
  by (simp add: isMatch_def)

lemma remap_nomatch:
  "\<not> isMatch (c # cs) \<Longrightarrow> remapText m (c # cs) = c # remapText m cs"
  "\<not> isMatch (c # cs) \<Longrightarrow> textHit m (c # cs) = textHit m cs"
  by (auto simp: isMatch_Cons remapText_Cons textHit_Cons)

lemma remap_match_None:
  assumes "isMatch (c # cs)" "m (CHR ''T'' # takeWhile isAlnum (tl cs)) = None"
  shows "remapText m (c # cs)
           = CHR ''#'' # CHR ''T'' # takeWhile isAlnum (tl cs) @ remapText m (dropWhile isAlnum (tl cs))"
    and "textHit m (c # cs) = textHit m (dropWhile isAlnum (tl cs))"
  using assms by (auto simp: isMatch_Cons remapText_Cons textHit_Cons)

lemma remap_match_Some:
  assumes "isMatch (c # cs)" "m (CHR ''T'' # takeWhile isAlnum (tl cs)) = Some real"
  shows "remapText m (c # cs) = CHR ''#'' # real @ remapText m (dropWhile isAlnum (tl cs))"
    and "textHit m (c # cs) = True"
  using assms by (auto simp: isMatch_Cons remapText_Cons textHit_Cons)

lemma remapText_idem:
  assumes tc: "tempToCanonical m"
  shows "remapText m (remapText m s) = remapText m s \<and> \<not> textHit m (remapText m s)"
proof (induction s rule: length_induct)
  case (1 s)
  show ?case
  proof (cases s)
    case Nil
    then show ?thesis by simp
  next
    case (Cons c cs)
    let ?run = "takeWhile isAlnum (tl cs)"
    let ?rest = "dropWhile isAlnum (tl cs)"
    have "length ?rest \<le> length (tl cs)"
      by (rule length_dropWhile_le)
    then have len: "length ?rest < length s" "length cs < length s"
      using Cons by simp_all
    have ih_rest: "remapText m (remapText m ?rest) = remapText m ?rest" "\<not> textHit m (remapText m ?rest)"
      using 1 len by blast+
    have ih_cs: "remapText m (remapText m cs) = remapText m cs" "\<not> textHit m (remapText m cs)"
      using 1 len by blast+
    show ?thesis
    proof (cases "isMatch (c # cs)")
      case match: True
      then have c: "c = CHR ''#''" by (simp add: isMatch_Cons)
      have rest_head: "takeWhile isAlnum (remapText m ?rest) = []"
        by (rule remapText_head) (rule takeWhile_dropWhile_nil)
      show ?thesis
      proof (cases "m (CHR ''T'' # ?run)")
        case None
        have out: "remapText m s = CHR ''#'' # CHR ''T'' # ?run @ remapText m ?rest"
          using remap_match_None(1)[where m=m, OF match None] Cons by simp
        have tw: "takeWhile isAlnum (?run @ remapText m ?rest) = ?run"
          by (rule takeWhile_run_append(1)[OF rest_head])
        have dw: "dropWhile isAlnum (?run @ remapText m ?rest) = remapText m ?rest"
          by (rule takeWhile_run_append(2)[OF rest_head])
        have m2: "isMatch (CHR ''#'' # CHR ''T'' # ?run @ remapText m ?rest)"
          using match tw by (simp add: isMatch_Cons)
        have n2: "m (CHR ''T'' # takeWhile isAlnum (tl (CHR ''T'' # ?run @ remapText m ?rest))) = None"
          using None tw by simp
        show ?thesis
          unfolding out remap_match_None[where m=m, OF m2 n2]
          using tw dw ih_rest by simp
      next
        case (Some real)
        have out: "remapText m s = CHR ''#'' # real @ remapText m ?rest"
          using remap_match_Some(1)[where m=m, OF match Some] Cons by simp
        have canon: "isCanonical real"
          using tc Some by (auto simp: tempToCanonical_def)
        then have ne: "real \<noteq> []" and dig: "list_all isDigit real"
          by (simp_all add: isCanonical_def)
        have hdr: "hd (real @ remapText m ?rest) \<noteq> CHR ''T''"
          using ne dig by (cases real) auto
        have nm: "\<not> isMatch (CHR ''#'' # real @ remapText m ?rest)"
          using hdr by (simp add: isMatch_Cons)
        have cp: "remapText m (real @ remapText m ?rest) = real @ remapText m (remapText m ?rest)"
                 "textHit m (real @ remapText m ?rest) = textHit m (remapText m ?rest)"
          using remapText_copy[OF digits_no_hash[OF dig]] by simp_all
        show ?thesis
          unfolding out remap_nomatch[OF nm] cp
          using ih_rest by simp
      qed
    next
      case nomatch: False
      have out: "remapText m s = c # remapText m cs"
        using remap_nomatch(1)[OF nomatch] Cons by simp
      have still: "\<not> isMatch (c # remapText m cs)"
      proof
        assume a: "isMatch (c # remapText m cs)"
        then have a': "c = CHR ''#''" "remapText m cs \<noteq> []" "hd (remapText m cs) = CHR ''T''"
            "takeWhile isAlnum (tl (remapText m cs)) \<noteq> []"
          by (simp_all add: isMatch_Cons)
        then have cne: "cs \<noteq> []" by auto
        then obtain x xs where cs: "cs = x # xs" by (cases cs) auto
        have "hd cs = CHR ''T''" using a' remapText_hd[OF cne, of m] by simp
        then have x: "x = CHR ''T''" using cs by simp
        have run: "takeWhile isAlnum xs = []" using nomatch a' cs x by (simp add: isMatch_Cons)
        have "\<not> isMatch (CHR ''T'' # xs)" by (simp add: isMatch_Cons)
        then have "remapText m cs = CHR ''T'' # remapText m xs"
          using cs x remap_nomatch(1) by simp
        then have "takeWhile isAlnum (tl (remapText m cs)) = []"
          using remapText_head[OF run, of m] by simp
        then show False using a' by simp
      qed
      show ?thesis
        unfolding out remap_nomatch[OF still]
        using ih_cs by simp
    qed
  qed
qed

lemma mapRefs_eq:
  "mapRefs m refs updated ch
     = (updated @ map (remapRef m) refs, ch \<or> list_ex (\<lambda>r. m r \<noteq> None) refs)"
  by (induction refs arbitrary: updated ch) (auto simp: remapRef_def split: option.splits)

lemma applyMappingToRefs_eq:
  "applyMappingToRefs refs m ch = (map (remapRef m) refs, ch \<or> list_ex (\<lambda>r. m r \<noteq> None) refs)"
  by (simp add: applyMappingToRefs_def mapRefs_eq)

lemma canonical_not_key:
  assumes "tempToCanonical m" "m k = Some v"
  shows "m v = None"
proof (rule ccontr)
  assume "m v \<noteq> None"
  then obtain w where "m v = Some w" by auto
  then have t: "isTemporary v" using assms(1) by (auto simp: tempToCanonical_def)
  have c: "isCanonical v" using assms by (auto simp: tempToCanonical_def)
  from t c show False
    by (cases v) (auto simp: isTemporary_def isCanonical_def)
qed

lemma remapRef_unmapped:
  "tempToCanonical m \<Longrightarrow> m (remapRef m r) = None"
  by (auto simp: remapRef_def canonical_not_key split: option.splits)

lemma remapRef_idem:
  "tempToCanonical m \<Longrightarrow> remapRef m (remapRef m r) = remapRef m r"
  using remapRef_unmapped[of m r] by (simp add: remapRef_def[of m "remapRef m r"])

lemma remapRefs_idem:
  assumes "tempToCanonical m"
  shows "map (remapRef m) (map (remapRef m) refs) = map (remapRef m) refs"
    and "\<not> list_ex (\<lambda>r. m r \<noteq> None) (map (remapRef m) refs)"
  using assms by (induction refs) (simp_all add: remapRef_idem remapRef_unmapped)

lemma applyMapping_eq: "applyMapping i m = (remapped i m, remapChanged i m)"
  by (cases "Parent i")
     (auto simp: applyMapping_def Let_def replaceLocalRefs_split applyMappingToRefs_eq
        remapped_def remapChanged_def remapRef_def split: option.splits)

lemma remapped_idem:
  assumes tc: "tempToCanonical m"
  shows "remapped (remapped i m) m = remapped i m" "\<not> remapChanged (remapped i m) m"
proof -
  note t = remapText_idem[OF tc]
  have b: "remapText m (remapText m (Body i)) = remapText m (Body i)" "\<not> textHit m (remapText m (Body i))"
    using t[of "Body i"] by simp_all
  have ti: "remapText m (remapText m (Title i)) = remapText m (Title i)" "\<not> textHit m (remapText m (Title i))"
    using t[of "Title i"] by simp_all
  have p: "map_option (remapRef m) (map_option (remapRef m) (Parent i)) = map_option (remapRef m) (Parent i)"
    by (cases "Parent i") (simp_all add: remapRef_idem[OF tc])
  have p2: "\<not> (case map_option (remapRef m) (Parent i) of None \<Rightarrow> False | Some p \<Rightarrow> m p \<noteq> None)"
    by (cases "Parent i") (simp_all add: remapRef_unmapped[OF tc])
  note r = remapRefs_idem[OF tc]
  have cmp: "remapRef m \<circ> remapRef m = remapRef m"
    by (rule ext) (simp add: remapRef_idem[OF tc])
  show "remapped (remapped i m) m = remapped i m"
    by (simp add: remapped_def b ti p cmp)
  show "\<not> remapChanged (remapped i m) m"
    using p2 r(2) by (simp add: remapped_def remapChanged_def b ti)
qed

text \<open>
  Claim C7. Identifier remapping is idempotent: for every record and every mapping from
  temporary to canonical identifiers, applying \<open>applyMapping\<close> to the result of a first
  application, with the same mapping, gives the same record and reports it as not
  modified.
\<close>

theorem applyMapping_idempotent:
  "tempToCanonical mapping \<Longrightarrow>
   applyMapping (fst (applyMapping issueItem mapping)) mapping
     = (fst (applyMapping issueItem mapping), False)"
  by (simp add: applyMapping_eq remapped_idem)

lemma mapping8_ok: "tempToCanonical mapping8"
  by (auto simp: tempToCanonical_def mapping8_def isTemporary_def isCanonical_def isAlnum_def
      isDigit_def less_eq_char_def split: if_splits)

lemma applyMapping_Tabc1: "applyMapping issueTabc1 mapping8 = (issue201, True)"
  by code_simp

theorem applyMapping_idempotent_witness:
  "tempToCanonical mapping8 \<and> applyMapping issueTabc1 mapping8 = (issue201, True)
   \<and> applyMapping issue201 mapping8 = (issue201, False)"
  using applyMapping_idempotent[OF mapping8_ok, of issueTabc1] mapping8_ok
  by (simp only: applyMapping_Tabc1 fst_conv simp_thms)

section \<open>Properties of the record store\<close>

lemma foldl_loadEntry_aux:
  "foldl (loadEntry dk state) result entries =
     result\<lparr>Issues := Issues result @
         concat (map (\<lambda>(name, c). case c of Inl _ \<Rightarrow> []
                  | Inr parsed \<Rightarrow> [\<lparr>ifIssue = parsed\<lparr>State := state\<rparr>, ifPath = (dk, name), ifState = state\<rparr>])
             (concat (map (\<lambda>(name, nd). case nd of SubDir \<Rightarrow> []
                                   | File c \<Rightarrow> if Ext name = ''.md'' then [(name, c)] else [])
                 entries))),
        Errors := Errors result @
         concat (map (\<lambda>(name, c). case c of Inl err \<Rightarrow> [\<lparr>pePath = RelPath dk name, peErr = err\<rparr>]
                  | Inr _ \<Rightarrow> [])
             (concat (map (\<lambda>(name, nd). case nd of SubDir \<Rightarrow> []
                                   | File c \<Rightarrow> if Ext name = ''.md'' then [(name, c)] else [])
                 entries)))\<rparr>"
proof (induction entries arbitrary: result)
  case Nil
  then show ?case by simp
next
  case (Cons e es)
  obtain name nd where e: "e = (name, nd)" by (cases e)
  show ?case
    unfolding foldl_Cons Cons.IH
    by (cases nd; cases "Ext name = ''.md''")
       (auto simp: e loadEntry_def IsDir_def split: sum.splits)
qed

lemma loadLocalIssuesWithErrors_eq:
  assumes "readable (openDir st)" "readable (closedDir st)"
  shows "loadLocalIssuesWithErrors st =
           \<lparr>Issues = parsedRecords InOpen ''open'' (openDir st)
                      @ parsedRecords InClosed ''closed'' (closedDir st),
            Errors = parseFailures InOpen (openDir st) @ parseFailures InClosed (closedDir st)\<rparr>"
  using assms
  by (cases "openDir st"; cases "closedDir st")
     (simp_all add: loadLocalIssuesWithErrors_def dirOf_def readable_def ReadDir_def
        parsedRecords_def parseFailures_def recordFiles_def foldl_loadEntry_aux)

lemma loadLocalIssues_failure:
  "Errors (loadLocalIssuesWithErrors st) \<noteq> [] \<Longrightarrow>
   loadLocalIssues st = Inl (hd (Errors (loadLocalIssuesWithErrors st)))"
  by (simp add: loadLocalIssues_def Let_def)

lemma loadLocalIssues_success:
  "Errors (loadLocalIssuesWithErrors st) = [] \<Longrightarrow>
   loadLocalIssues st = Inr (Issues (loadLocalIssuesWithErrors st))"
  by (simp add: loadLocalIssues_def Let_def)

text \<open>
  Claim C2, as the code has it. \<open>loadLocalIssuesWithErrors\<close> tolerates malformed files:
  when both directories can be read (or are missing) it returns every record file that
  parses, and every parse failure with the path of its file. \<open>loadLocalIssues\<close>, which
  \<open>Pull\<close> calls, turns the first collected failure into its error, and \<open>Pull\<close> returns
  that error before it fetches or writes anything.
\<close>

theorem load_collects_pull_aborts:
  "(readable (openDir st) \<and> readable (closedDir st) \<longrightarrow>
      loadLocalIssuesWithErrors st =
        \<lparr>Issues = parsedRecords InOpen ''open'' (openDir st)
                   @ parsedRecords InClosed ''closed'' (closedDir st),
         Errors = parseFailures InOpen (openDir st) @ parseFailures InClosed (closedDir st)\<rparr>)
   \<and> (Errors (loadLocalIssuesWithErrors st) \<noteq> [] \<longrightarrow>
        loadLocalIssues st = Inl (hd (Errors (loadLocalIssuesWithErrors st)))
        \<and> Pull env opts args st = Inl (LoadFailed (hd (Errors (loadLocalIssuesWithErrors st)))))"
  by (simp add: loadLocalIssuesWithErrors_eq loadLocalIssues_failure Pull_def)

lemma load_storeBad:
  "loadLocalIssuesWithErrors storeBad
     = \<lparr>Issues = [file7], Errors = [\<lparr>pePath = RelPath InOpen ''9-bad.md'', peErr = ''missing front matter''\<rparr>]\<rparr>"
  by code_simp

theorem pull_aborts_on_malformed_file:
  "loadLocalIssuesWithErrors storeBad
     = \<lparr>Issues = [file7], Errors = [\<lparr>pePath = RelPath InOpen ''9-bad.md'', peErr = ''missing front matter''\<rparr>]\<rparr>
   \<and> Pull env7 noForce [] storeBad
     = Inl (LoadFailed \<lparr>pePath = RelPath InOpen ''9-bad.md'', peErr = ''missing front matter''\<rparr>)"
  by (simp add: load_storeBad Pull_def loadLocalIssues_def)

theorem load_collects_pull_aborts_witness:
  "readable (openDir storeBad) \<and> readable (closedDir storeBad)
   \<and> Issues (loadLocalIssuesWithErrors storeBad) = [file7]
   \<and> parsedRecords InOpen ''open'' (openDir storeBad) @ parsedRecords InClosed ''closed'' (closedDir storeBad) = [file7]
   \<and> Errors (loadLocalIssuesWithErrors storeBad) \<noteq> []
   \<and> Pull env7 withForce [''7''] storeBad
       = Inl (LoadFailed \<lparr>pePath = RelPath InOpen ''9-bad.md'', peErr = ''missing front matter''\<rparr>)"
proof -
  have r: "readable (openDir storeBad) \<and> readable (closedDir storeBad)"
    by (simp add: storeBad_def store7_def readable_def)
  have e: "Errors (loadLocalIssuesWithErrors storeBad) \<noteq> []"
    by (simp add: load_storeBad)
  from load_collects_pull_aborts[of storeBad env7 withForce "[''7'']"] r e
  show ?thesis
    by (simp add: load_storeBad)
qed

section \<open>Properties of the file operations\<close>

lemma readable_putNode [simp]: "readable (putNode d name nd) = readable d"
  by (cases d) (simp_all add: readable_def putNode_def)

lemma readable_dropNode [simp]: "readable (dropNode d name) = readable d"
  by (cases d) (simp_all add: readable_def dropNode_def)



lemma dirOf_setDir [simp]:
  "dirOf (setDir st dk d) dk' = (if dk' = dk then d else dirOf st dk')"
  by (cases dk; cases dk') (simp_all add: dirOf_def setDir_def)

lemma originalsDir_setDir [simp]: "originalsDir (setDir st dk d) = originalsDir st"
  by (cases dk) (simp_all add: setDir_def)

lemma lastFullPull_setDir [simp]: "lastFullPull (setDir st dk d) = lastFullPull st"
  by (cases dk) (simp_all add: setDir_def)

lemma dirOf_originals_update [simp]: "dirOf (st\<lparr>originalsDir := d\<rparr>) dk = dirOf st dk"
  by (cases dk) (simp_all add: dirOf_def)

section \<open>Properties of one reconciliation step\<close>








section \<open>The write path and the force flag\<close>

lemma Number_normalized [simp]: "Number (normalized env remote) = Number remote"
  by (simp add: normalized_def)




lemma openDir_dirOf: "openDir st = dirOf st InOpen" "closedDir st = dirOf st InClosed"
  by (simp_all add: dirOf_def)

lemma dirsReadable_putFile [simp]: "dirsReadable (putFile st path nd) = dirsReadable st"
  by (cases "fst path") (auto simp: dirsReadable_def putFile_def setDir_def dirOf_def)

lemma dirsReadable_dropFile [simp]: "dirsReadable (dropFile st path) = dirsReadable st"
  by (cases "fst path") (auto simp: dirsReadable_def dropFile_def setDir_def dirOf_def)

lemma dirsReadable_putOriginal [simp]: "dirsReadable (putOriginal st item) = dirsReadable st"
  by (simp add: dirsReadable_def putOriginal_def)



lemma fileAt_putOriginal [simp]: "fileAt (putOriginal st item) p = fileAt st p"
  by (simp add: fileAt_def putOriginal_def)

lemma originalsDir_putFile [simp]: "originalsDir (putFile st path nd) = originalsDir st"
  by (simp add: putFile_def)

lemma originalsDir_dropFile [simp]: "originalsDir (dropFile st path) = originalsDir st"
  by (simp add: dropFile_def)

lemma readOriginal_putFile [simp]: "readOriginalIssue (putFile st path nd) n = readOriginalIssue st n"
  by (simp add: readOriginalIssue_def)

lemma readOriginal_dropFile [simp]: "readOriginalIssue (dropFile st path) n = readOriginalIssue st n"
  by (simp add: readOriginalIssue_def)










end
